theory Spec2Isabelle
  imports Main "HOL-Library.Char_ord" "HOL-Library.List_Lexorder" "HOL-Library.AList"
begin

section \<open>Strings\<close>

text \<open>
  Go strings are byte sequences; \<^typ>\<open>string\<close> is a list of 8-bit characters, and the
  order on it (bytewise, a proper prefix first) is the one \<open>sort.Strings\<close> uses.
  The library functions that work on the bytes alone are written out:
  \<open>strings.Join\<close>, \<open>strconv.Itoa\<close> on the non-negative indices the engine passes,
  \<open>strings.Contains\<close>, and \<open>strings.ToLower\<close>, which the engine calls only on
  identifiers made of ASCII letters, digits, \<open>_\<close> and \<open>-\<close>, where it maps \<open>A\<close> to
  \<open>Z\<close> to lower case and keeps every other byte. \<open>strings.ToUpper\<close> and
  \<open>strings.TrimSpace\<close>, which the engine calls on the text of a payload, follow the
  Unicode tables and are taken from the library as they are (section
  \<open>The participant store\<close>).
\<close>

fun join :: "string list \<Rightarrow> string \<Rightarrow> string" where
  "join [] sep = []"
| "join [x] sep = x"
| "join (x # y # ys) sep = x @ sep @ join (y # ys) sep"

definition digit :: "nat \<Rightarrow> char" where
  "digit d = char_of (48 + d)"

function itoa :: "nat \<Rightarrow> string" where
  "itoa n = (if n < 10 then [digit n] else itoa (n div 10) @ [digit (n mod 10)])"
  by pat_completeness auto
termination
  by (relation "measure (\<lambda>n. n)") auto

declare itoa.simps [simp del]

definition lowerChar :: "char \<Rightarrow> char" where
  "lowerChar c = (let k = (of_char c :: nat) in if 65 \<le> k \<and> k \<le> 90 then char_of (k + 32) else c)"

definition toLower :: "string \<Rightarrow> string" where
  "toLower s = map lowerChar s"

fun isPrefix :: "string \<Rightarrow> string \<Rightarrow> bool" where
  "isPrefix [] s = True"
| "isPrefix (p # ps) [] = False"
| "isPrefix (p # ps) (c # cs) = (p = c \<and> isPrefix ps cs)"

fun contains :: "string \<Rightarrow> string \<Rightarrow> bool" where
  "contains [] sub = (sub = [])"
| "contains (c # cs) sub = (isPrefix sub (c # cs) \<or> contains cs sub)"

section \<open>Protocol types\<close>

datatype TxState = StateInit | StatePrepare | StateReady | StateCommit | StateAbort

datatype NodeRole = RoleMaster | RoleSlave

datatype PrepareStatus = StatusReady | StatusAbort

record PrepareResponse =
  pr_Status :: PrepareStatus
  pr_Error :: string

record CommitResponse =
  cr_Success :: bool
  cr_Error :: string

record AbortResponse =
  ar_Success :: bool
  ar_Error :: string

record TransactionResponse =
  TransactionID :: string
  Success :: bool
  Message :: string
  Error :: string

section \<open>SQL actions and statement construction\<close>

text \<open>
  A value of Go's \<open>any\<close> as it comes out of a JSON document. The engine only passes
  these values through to the database driver and never computes with them; a number
  stands for itself as an integer.
\<close>

datatype jvalue = JNull | JBool bool | JNumber int | JString string
  | JArray "jvalue list" | JObject "(string \<times> jvalue) list"

text \<open>
  \<open>map[string]any\<close> is an association list: the list order stands for the unspecified
  iteration order of the Go map, and the keys of a Go map are distinct.
\<close>

type_synonym anymap = "(string \<times> jvalue) list"

record SQLAction =
  Table :: string
  Operation :: string
  Values :: anymap
  Where :: anymap

text \<open>Indexing a Go map: the zero value (\<open>nil\<close>) for a missing key.\<close>

definition index :: "anymap \<Rightarrow> string \<Rightarrow> jvalue" where
  "index m k = (case map_of m k of None \<Rightarrow> JNull | Some v \<Rightarrow> v)"

definition validateSQLAction :: "SQLAction \<Rightarrow> string option" where
  "validateSQLAction action =
     (if Table action = [] then Some ''table is required''
      else if length (Values action) = 0 then Some ''values are required''
      else if Operation action = ''INSERT'' then None
      else if Operation action = ''UPDATE'' then
        (if length (Where action) = 0 then Some ''where is required for UPDATE'' else None)
      else Some (''unsupported operation: '' @ Operation action))"

definition sortedKeys :: "anymap \<Rightarrow> string list" where
  "sortedKeys m = sort (map fst m)"

definition placeholder :: "nat \<Rightarrow> string" where
  "placeholder idx = ''$'' @ itoa idx"

definition identChar :: "char \<Rightarrow> bool" where
  "identChar r = (let k = (of_char r :: nat) in
     k = 95 \<or> k = 45 \<or> (48 \<le> k \<and> k \<le> 57) \<or> (97 \<le> k \<and> k \<le> 122) \<or> (65 \<le> k \<and> k \<le> 90))"

text \<open>
  \<open>safeIdent\<close> ranges over the runes of the identifier. A byte outside ASCII decodes to
  a rune of at least 128, which is refused like any other character outside the
  alphabet, so the test on bytes decides the same strings.
\<close>

definition safeIdent :: "string \<Rightarrow> string + string" where
  "safeIdent ident =
     (if ident = [] then Inl ''identifier empty''
      else if \<not> list_all identChar ident then Inl ''identifier contains invalid characters''
      else Inr (toLower ident))"

definition quote :: "string \<Rightarrow> string" where
  "quote ident = ''\"'' @ ident @ ''\"''"

text \<open>
  The loop of the INSERT branch, at index \<open>i\<close>: it fills \<open>colIdents\<close>, \<open>args\<close> and
  \<open>placeholders\<close> and returns at the first identifier that is refused.
\<close>

fun insertLoop :: "anymap \<Rightarrow> nat \<Rightarrow> string list \<Rightarrow> string + (string list \<times> jvalue list \<times> string list)" where
  "insertLoop vals i [] = Inr ([], [], [])"
| "insertLoop vals i (c # cs) =
     (case safeIdent c of
        Inl err \<Rightarrow> Inl err
      | Inr ident \<Rightarrow>
          (case insertLoop vals (i + 1) cs of
             Inl err \<Rightarrow> Inl err
           | Inr (colIdents, args, placeholders) \<Rightarrow>
               Inr (quote ident # colIdents, index vals c # args, placeholder (i + 1) # placeholders)))"

text \<open>
  The two loops of the UPDATE branch share the running placeholder number \<open>idx\<close>;
  each returns its parts, the arguments it appended and the next \<open>idx\<close>.
\<close>

fun assignLoop :: "anymap \<Rightarrow> nat \<Rightarrow> string list \<Rightarrow> string + (string list \<times> jvalue list \<times> nat)" where
  "assignLoop m idx [] = Inr ([], [], idx)"
| "assignLoop m idx (c # cs) =
     (case safeIdent c of
        Inl err \<Rightarrow> Inl err
      | Inr ident \<Rightarrow>
          (case assignLoop m (idx + 1) cs of
             Inl err \<Rightarrow> Inl err
           | Inr (parts, args, idx') \<Rightarrow>
               Inr ((quote ident @ ''='' @ placeholder idx) # parts, index m c # args, idx')))"

text \<open>
  The statement and the argument list that \<open>applySQLAction\<close> hands to
  \<open>tx.ExecContext\<close>, or the error it returns before reaching the database.
\<close>

definition buildStatement :: "SQLAction \<Rightarrow> string + (string \<times> jvalue list)" where
  "buildStatement action =
     (case safeIdent (Table action) of
        Inl err \<Rightarrow> Inl err
      | Inr table \<Rightarrow>
          if Operation action = ''INSERT'' then
            (case insertLoop (Values action) 0 (sortedKeys (Values action)) of
               Inl err \<Rightarrow> Inl err
             | Inr (colIdents, args, placeholders) \<Rightarrow>
                 Inr (''INSERT INTO \"'' @ table @ ''\" ('' @ join colIdents '','' @ '') VALUES (''
                        @ join placeholders '','' @ '')'', args))
          else if Operation action = ''UPDATE'' then
            (let setCols = sortedKeys (Values action); whereCols = sortedKeys (Where action) in
             if length whereCols = 0 then Inl ''where is required for UPDATE''
             else
               (case assignLoop (Values action) 1 setCols of
                  Inl err \<Rightarrow> Inl err
                | Inr (setParts, setArgs, idx) \<Rightarrow>
                    (case assignLoop (Where action) idx whereCols of
                       Inl err \<Rightarrow> Inl err
                     | Inr (whereParts, whereArgs, idx') \<Rightarrow>
                         Inr (''UPDATE \"'' @ table @ ''\" SET '' @ join setParts '',''
                                @ '' WHERE '' @ join whereParts '' AND '', setArgs @ whereArgs))))
          else Inl (''unsupported operation: '' @ Operation action))"

section \<open>The participant store: nodes and their database\<close>

text \<open>
  The payload of a transaction is a Go \<open>any\<close>; \<open>parseSQLAction\<close> switches on its
  dynamic type. The standard library is outside the engine: the functions of it that
  \<open>parseSQLAction\<close> calls are taken as they are, \<open>unmarshal\<close> for \<open>json.Unmarshal\<close>
  into an \<open>SQLAction\<close>, \<open>marshal\<close> for \<open>json.Marshal\<close>, \<open>trimSpace\<close> for
  \<open>strings.TrimSpace\<close> and \<open>toUpper\<close> for \<open>strings.ToUpper\<close>. Nothing is assumed of
  them: what is proved holds whatever they return.
\<close>

datatype payload = PNil | PAction SQLAction | PActionPtr "SQLAction option"
  | PBytes string | PString string | PValue jvalue

record golib =
  unmarshal :: "string \<Rightarrow> string + SQLAction"
  marshal :: "payload \<Rightarrow> string + string"
  trimSpace :: "string \<Rightarrow> string"
  toUpper :: "string \<Rightarrow> string"

text \<open>The type switch of \<open>parseSQLAction\<close>.\<close>

definition payloadAction :: "golib \<Rightarrow> payload \<Rightarrow> string + SQLAction" where
  "payloadAction lib p =
     (case p of
        PNil \<Rightarrow> Inl ''payload is required''
      | PAction v \<Rightarrow> Inr v
      | PActionPtr None \<Rightarrow> Inl ''payload is required''
      | PActionPtr (Some v) \<Rightarrow> Inr v
      | PBytes v \<Rightarrow> unmarshal lib v
      | PString v \<Rightarrow> unmarshal lib v
      | PValue v \<Rightarrow>
          (case marshal lib p of
             Inl err \<Rightarrow> Inl err
           | Inr bytes \<Rightarrow> unmarshal lib bytes))"

text \<open>The assignments to \<open>action.Operation\<close> and \<open>action.Table\<close> that follow the switch.\<close>

definition normalizeAction :: "golib \<Rightarrow> SQLAction \<Rightarrow> SQLAction" where
  "normalizeAction lib action =
     (let op = toUpper lib (trimSpace lib (Operation action)) in
      action\<lparr>Operation := (if op = [] then ''INSERT'' else op),
             Table := trimSpace lib (Table action)\<rparr>)"

definition parseSQLAction :: "golib \<Rightarrow> payload \<Rightarrow> string + SQLAction" where
  "parseSQLAction lib p =
     (case payloadAction lib p of
        Inl err \<Rightarrow> Inl err
      | Inr action \<Rightarrow>
          (case validateSQLAction (normalizeAction lib action) of
             Some err \<Rightarrow> Inl err
           | None \<Rightarrow> Inr (normalizeAction lib action)))"

text \<open>
  The database is an opaque transactional store. Every call the node makes on it is
  recorded, in order, as a \<open>db_call\<close>; a transaction handle is a number. What each call
  answers is not the engine's to decide: a \<open>db_env\<close> gives the answers the database
  makes during one operation of the node.
\<close>

datatype db_call =
    QueryTableExists
  | ExecDDL
  | BeginTx
  | TxExec nat string "jvalue list"
  | TxInsertPrepared nat string string
  | TxSetCommitted nat string
  | TxCommit nat
  | TxRollback nat
  | DbSetCommitted string
  | DbSetAborted string

record db_env =
  tableExistsFirst :: "string + bool"
  ddlErr :: "string option"
  tableExistsAgain :: "string + bool"
  beginTx :: "string + nat"
  execErr :: "string \<Rightarrow> jvalue list \<Rightarrow> string option"
  insertPreparedErr :: "string option"
  rowsAffected :: "string + int"
  setCommittedErr :: "string option"
  commitErr :: "string option"
  rollbackErr :: "string option"
  dbSetCommittedErr :: "string option"
  dbSetAbortedErr :: "string option"

record Node =
  Addr :: string
  Role :: NodeRole
  IsAlive :: bool
  TxState :: TxState
  pendingTx :: "string \<rightharpoonup> nat"
  pendingData :: "string \<rightharpoonup> payload"
  db :: bool
  schemaOnce :: bool
  schemaErr :: "string option"

definition NewNode :: "string \<Rightarrow> NodeRole \<Rightarrow> Node" where
  "NewNode addr role =
     \<lparr>Addr = addr, Role = role, IsAlive = True, TxState = StateInit,
      pendingTx = Map.empty, pendingData = Map.empty,
      db = False, schemaOnce = False, schemaErr = None\<rparr>"

definition NewNodeWithDB :: "string \<Rightarrow> NodeRole \<Rightarrow> Node" where
  "NewNodeWithDB addr role = (NewNode addr role)\<lparr>db := True, schemaOnce := False, schemaErr := None\<rparr>"

definition ensureSchemaLocked :: "db_env \<Rightarrow> db_call list \<times> string option" where
  "ensureSchemaLocked env =
     (case tableExistsFirst env of
        Inl err \<Rightarrow> ([QueryTableExists], Some err)
      | Inr exists \<Rightarrow>
          if exists then ([QueryTableExists], None)
          else
            (case ddlErr env of
               None \<Rightarrow> ([QueryTableExists, ExecDDL], None)
             | Some err \<Rightarrow>
                 (case tableExistsAgain env of
                    Inl chkErr \<Rightarrow> ([QueryTableExists, ExecDDL, QueryTableExists], Some chkErr)
                  | Inr ok \<Rightarrow>
                      ([QueryTableExists, ExecDDL, QueryTableExists], if ok then None else Some err))))"

definition ensureSchema :: "db_env \<Rightarrow> Node \<Rightarrow> Node \<times> db_call list \<times> string option" where
  "ensureSchema env n =
     (if \<not> db n then (n, [], None)
      else if schemaOnce n then (n, [], schemaErr n)
      else
        (let (calls, err) = ensureSchemaLocked env in
         (n\<lparr>schemaOnce := True, schemaErr := err\<rparr>, calls, err)))"

definition applySQLAction :: "db_env \<Rightarrow> nat \<Rightarrow> SQLAction \<Rightarrow> db_call list \<times> string option" where
  "applySQLAction env tx action =
     (case buildStatement action of
        Inl err \<Rightarrow> ([], Some err)
      | Inr (stmt, args) \<Rightarrow> ([TxExec tx stmt args], execErr env stmt args))"

definition isAlreadyFinishedErr :: "string option \<Rightarrow> bool" where
  "isAlreadyFinishedErr err =
     (case err of
        None \<Rightarrow> False
      | Some msg \<Rightarrow>
          contains msg ''already been committed'' \<or>
          contains msg ''already been rolled back'' \<or>
          contains msg ''already been committed or rolled back'')"

definition SetAlive :: "Node \<Rightarrow> bool \<Rightarrow> Node" where
  "SetAlive n alive = n\<lparr>IsAlive := alive\<rparr>"

definition SetRole :: "Node \<Rightarrow> NodeRole \<Rightarrow> Node" where
  "SetRole n role = n\<lparr>Role := role\<rparr>"

text \<open>
  \<open>Prepare\<close> returns the node as it leaves it, the database calls it made and its two
  results \<open>(ready, err)\<close>.
\<close>

definition Prepare :: "golib \<Rightarrow> db_env \<Rightarrow> Node \<Rightarrow> string \<Rightarrow> payload
    \<Rightarrow> Node \<times> db_call list \<times> bool \<times> string option" where
  "Prepare lib env n txID p =
     (if pendingData n txID \<noteq> None then (n, [], False, Some ''transaction already in progress'')
      else if db n then
        (let (n1, calls0, serr) = ensureSchema env n in
         case serr of
           Some err \<Rightarrow> (n1, calls0, False, Some err)
         | None \<Rightarrow>
             (case beginTx env of
                Inl err \<Rightarrow> (n1, calls0 @ [BeginTx], False, Some err)
              | Inr tx \<Rightarrow>
                  (case parseSQLAction lib p of
                     Inl err \<Rightarrow> (n1, calls0 @ [BeginTx, TxRollback tx], False, Some err)
                   | Inr action \<Rightarrow>
                       (let (calls1, aerr) = applySQLAction env tx action in
                        case aerr of
                          Some err \<Rightarrow> (n1, calls0 @ [BeginTx] @ calls1 @ [TxRollback tx], False, Some err)
                        | None \<Rightarrow>
                            (case marshal lib p of
                               Inl err \<Rightarrow>
                                 (n1, calls0 @ [BeginTx] @ calls1 @ [TxRollback tx], False, Some err)
                             | Inr payloadBytes \<Rightarrow>
                                 (let calls2 = calls0 @ [BeginTx] @ calls1
                                        @ [TxInsertPrepared tx txID payloadBytes] in
                                  case insertPreparedErr env of
                                    Some err \<Rightarrow> (n1, calls2 @ [TxRollback tx], False, Some err)
                                  | None \<Rightarrow>
                                      (case rowsAffected env of
                                         Inl err \<Rightarrow> (n1, calls2 @ [TxRollback tx], False, Some err)
                                       | Inr rows \<Rightarrow>
                                           if rows = 0 then
                                             (n1, calls2 @ [TxRollback tx], False,
                                              Some ''transaction already exists'')
                                           else
                                             (n1\<lparr>pendingTx := (pendingTx n1)(txID \<mapsto> tx),
                                                 pendingData := (pendingData n1)(txID \<mapsto> p),
                                                 TxState := StateReady\<rparr>,
                                              calls2, True, None))))))))
      else
        (n\<lparr>pendingData := (pendingData n)(txID \<mapsto> p), TxState := StateReady\<rparr>, [], True, None))"

definition Commit :: "db_env \<Rightarrow> Node \<Rightarrow> string \<Rightarrow> Node \<times> db_call list \<times> string option" where
  "Commit env n txID =
     (let done = (\<lambda>m calls.
            (m\<lparr>pendingData := (pendingData m)(txID := None), TxState := StateCommit\<rparr>, calls, None)) in
      case pendingTx n txID of
        Some tx \<Rightarrow>
          if setCommittedErr env \<noteq> None \<and> \<not> isAlreadyFinishedErr (setCommittedErr env) then
            (n, [TxSetCommitted tx txID, TxRollback tx], setCommittedErr env)
          else if commitErr env \<noteq> None \<and> \<not> isAlreadyFinishedErr (commitErr env) then
            (n, [TxSetCommitted tx txID, TxCommit tx], commitErr env)
          else
            done (n\<lparr>pendingTx := (pendingTx n)(txID := None)\<rparr>) [TxSetCommitted tx txID, TxCommit tx]
      | None \<Rightarrow>
          if db n then
            (case dbSetCommittedErr env of
               Some err \<Rightarrow> (n, [DbSetCommitted txID], Some err)
             | None \<Rightarrow> done n [DbSetCommitted txID])
          else done n [])"

definition Abort :: "db_env \<Rightarrow> Node \<Rightarrow> string \<Rightarrow> Node \<times> db_call list \<times> string option" where
  "Abort env n txID =
     (let done = (\<lambda>m calls.
            (m\<lparr>pendingData := (pendingData m)(txID := None), TxState := StateAbort\<rparr>, calls, None)) in
      case pendingTx n txID of
        Some tx \<Rightarrow>
          if rollbackErr env \<noteq> None \<and> \<not> isAlreadyFinishedErr (rollbackErr env) then
            (n, [TxRollback tx], rollbackErr env)
          else done (n\<lparr>pendingTx := (pendingTx n)(txID := None)\<rparr>) [TxRollback tx]
      | None \<Rightarrow>
          if db n then
            (case dbSetAbortedErr env of
               Some err \<Rightarrow> (n, [DbSetAborted txID], Some err)
             | None \<Rightarrow> done n [DbSetAborted txID])
          else done n [])"

definition HasPendingTransaction :: "Node \<Rightarrow> string \<Rightarrow> bool" where
  "HasPendingTransaction n txID = (pendingData n txID \<noteq> None)"

section \<open>The store of nodes\<close>

text \<open>
  Nodes are shared by reference: the cluster's table, its master pointer, the
  coordinator and a participant all hold \<open>*node.Node\<close>. A reference is a number and the
  store maps every reference to the node it denotes; \<open>n.SetRole(r)\<close> on a reference
  \<open>p\<close> is an update of the store at \<open>p\<close>.
\<close>

type_synonym ref = nat

type_synonym store = "ref \<Rightarrow> Node"

section \<open>The participant wrapper\<close>

record TransactionState =
  ts_ID :: string
  ts_State :: TxState
  ts_Payload :: payload

record Participant =
  node :: ref
  transactions :: "string \<rightharpoonup> TransactionState"

definition NewParticipant :: "ref \<Rightarrow> Participant" where
  "NewParticipant n = \<lparr>node = n, transactions = Map.empty\<rparr>"

definition Participant_Prepare :: "golib \<Rightarrow> db_env \<Rightarrow> store \<Rightarrow> Participant \<Rightarrow> string \<Rightarrow> payload
    \<Rightarrow> store \<times> Participant \<times> db_call list \<times> PrepareResponse" where
  "Participant_Prepare lib env h p txID pl =
     (if transactions p txID \<noteq> None then
        (h, p, [], \<lparr>pr_Status = StatusAbort, pr_Error = ''Transaction already in progress''\<rparr>)
      else
        (let (n', calls, ready, err) = Prepare lib env (h (node p)) txID pl;
             h' = h(node p := n') in
         if \<not> ready \<or> err \<noteq> None then
           (h', p, calls,
            \<lparr>pr_Status = StatusAbort,
             pr_Error = (case err of Some msg \<Rightarrow> msg | None \<Rightarrow> ''Prepare failed'')\<rparr>)
         else
           (h',
            p\<lparr>transactions := (transactions p)
                 (txID \<mapsto> \<lparr>ts_ID = txID, ts_State = StateReady, ts_Payload = pl\<rparr>)\<rparr>,
            calls, \<lparr>pr_Status = StatusReady, pr_Error = []\<rparr>)))"

text \<open>
  On success \<open>Commit\<close> and \<open>Abort\<close> set the state of the entry and then delete the
  entry from the table; only the deletion is left to see.
\<close>

definition Participant_Commit :: "db_env \<Rightarrow> store \<Rightarrow> Participant \<Rightarrow> string
    \<Rightarrow> store \<times> Participant \<times> db_call list \<times> CommitResponse" where
  "Participant_Commit env h p txID =
     (case transactions p txID of
        None \<Rightarrow> (h, p, [], \<lparr>cr_Success = False, cr_Error = ''Transaction not found''\<rparr>)
      | Some txState \<Rightarrow>
          if ts_State txState \<noteq> StateReady then
            (h, p, [], \<lparr>cr_Success = False, cr_Error = ''Transaction not in READY state''\<rparr>)
          else
            (let (n', calls, err) = Commit env (h (node p)) txID;
                 h' = h(node p := n') in
             case err of
               Some msg \<Rightarrow> (h', p, calls, \<lparr>cr_Success = False, cr_Error = msg\<rparr>)
             | None \<Rightarrow>
                 (h', p\<lparr>transactions := (transactions p)(txID := None)\<rparr>, calls,
                  \<lparr>cr_Success = True, cr_Error = []\<rparr>)))"

definition Participant_Abort :: "db_env \<Rightarrow> store \<Rightarrow> Participant \<Rightarrow> string
    \<Rightarrow> store \<times> Participant \<times> db_call list \<times> AbortResponse" where
  "Participant_Abort env h p txID =
     (case transactions p txID of
        None \<Rightarrow> (h, p, [], \<lparr>ar_Success = True, ar_Error = []\<rparr>)
      | Some txState \<Rightarrow>
          (let (n', calls, err) = Abort env (h (node p)) txID;
               h' = h(node p := n') in
           case err of
             Some msg \<Rightarrow> (h', p, calls, \<lparr>ar_Success = False, ar_Error = msg\<rparr>)
           | None \<Rightarrow>
               (h', p\<lparr>transactions := (transactions p)(txID := None)\<rparr>, calls,
                \<lparr>ar_Success = True, ar_Error = []\<rparr>)))"

section \<open>The membership table and the election\<close>

text \<open>
  \<open>nodes\<close> is the Go map from address to node reference, as an association list whose
  order stands for the unspecified iteration order. Every function that ranges over
  the map sorts what it collects or does the same to every entry.
\<close>

record Cluster =
  nodes :: "(string \<times> ref) list"
  master :: "ref option"

definition NewCluster :: Cluster where
  "NewCluster = \<lparr>nodes = [], master = None\<rparr>"

definition AddNode :: "store \<Rightarrow> Cluster \<Rightarrow> ref \<Rightarrow> Cluster" where
  "AddNode h c n = c\<lparr>nodes := AList.update (Addr (h n)) n (nodes c)\<rparr>"

definition RemoveNode :: "Cluster \<Rightarrow> string \<Rightarrow> Cluster" where
  "RemoveNode c addr =
     (case map_of (nodes c) addr of
        None \<Rightarrow> c
      | Some n \<Rightarrow>
          (if master c = Some n then c\<lparr>master := None\<rparr> else c)
            \<lparr>nodes := AList.delete addr (nodes c)\<rparr>)"

definition GetSlaveNodes :: "store \<Rightarrow> Cluster \<Rightarrow> ref list" where
  "GetSlaveNodes h c =
     map snd (filter (\<lambda>(addr, n). IsAlive (h n) \<and> Role (h n) = RoleSlave) (nodes c))"

definition SetMaster :: "store \<Rightarrow> Cluster \<Rightarrow> ref option \<Rightarrow> store \<times> Cluster" where
  "SetMaster h c n =
     (let h1 = (case master c of
                  None \<Rightarrow> h
                | Some old \<Rightarrow> h(old := SetRole (h old) RoleSlave)) in
      (case n of
         None \<Rightarrow> h1
       | Some new \<Rightarrow> h1(new := SetRole (h1 new) RoleMaster),
       c\<lparr>master := n\<rparr>))"

definition ShouldBeMaster :: "store \<Rightarrow> Cluster \<Rightarrow> string \<Rightarrow> bool" where
  "ShouldBeMaster h c addr =
     (let aliveAddrs = map fst (filter (\<lambda>(nodeAddr, n). IsAlive (h n)) (nodes c)) in
      if length aliveAddrs = 0 then False else hd (sort aliveAddrs) = addr)"

definition lowestAliveAddrLocked :: "store \<Rightarrow> Cluster \<Rightarrow> string" where
  "lowestAliveAddrLocked h c =
     (let aliveAddrs = map fst (filter (\<lambda>(addr, n). IsAlive (h n)) (nodes c)) in
      if length aliveAddrs = 0 then [] else hd (sort aliveAddrs))"

text \<open>The loop that resets every role of the table to slave.\<close>

fun resetRoles :: "store \<Rightarrow> (string \<times> ref) list \<Rightarrow> store" where
  "resetRoles h [] = h"
| "resetRoles h ((addr, n) # rest) = resetRoles (h(n := SetRole (h n) RoleSlave)) rest"

text \<open>
  \<open>c.nodes[lowestAlive]\<close> is read without a test: the address was collected from the
  table under the same lock, so the entry is there (lemma \<open>lowestAlive_in_table\<close>
  below), and the branch for a missing entry is never taken.
\<close>

definition electMasterLocked :: "store \<Rightarrow> Cluster \<Rightarrow> store \<times> Cluster \<times> bool" where
  "electMasterLocked h c =
     (let lowestAlive = lowestAliveAddrLocked h c in
      if lowestAlive = [] then (h, c\<lparr>master := None\<rparr>, False)
      else
        (let h1 = resetRoles h (nodes c) in
         case map_of (nodes c) lowestAlive of
           Some newMaster \<Rightarrow>
             (h1(newMaster := SetRole (h1 newMaster) RoleMaster), c\<lparr>master := Some newMaster\<rparr>, True)
         | None \<Rightarrow> (h1, c\<lparr>master := None\<rparr>, True)))"

definition ElectMaster :: "store \<Rightarrow> Cluster \<Rightarrow> store \<times> Cluster" where
  "ElectMaster h c = (let (h', c', changed) = electMasterLocked h c in (h', c'))"

definition EvictMaster :: "store \<Rightarrow> Cluster \<Rightarrow> store \<times> Cluster" where
  "EvictMaster h c =
     (case master c of
        None \<Rightarrow> (h, c)
      | Some m \<Rightarrow> (h(m := SetRole (h m) RoleSlave), c\<lparr>master := None\<rparr>))"

definition CheckAndElect :: "store \<Rightarrow> Cluster \<Rightarrow> store \<times> Cluster \<times> bool" where
  "CheckAndElect h c =
     (let lowestAlive = lowestAliveAddrLocked h c;
          (h1, c1, currentMaster) =
            (case master c of
               None \<Rightarrow> (h, c, [])
             | Some m \<Rightarrow>
                 if \<not> IsAlive (h m) then (h(m := SetRole (h m) RoleSlave), c\<lparr>master := None\<rparr>, [])
                 else (h, c, Addr (h m))) in
      if lowestAlive = [] then
        (case master c1 of
           None \<Rightarrow> (h1, c1, False)
         | Some m \<Rightarrow> (h1(m := SetRole (h1 m) RoleSlave), c1\<lparr>master := None\<rparr>, False))
      else if master c1 = None \<or> currentMaster \<noteq> lowestAlive then electMasterLocked h1 c1
      else (h1, c1, False))"

section \<open>The coordinator\<close>

text \<open>
  The coordinator reaches the remote participants through the HTTP client, whose
  calls return a response pointer and an error. What a remote node answers is given
  per address by an \<open>exec_env\<close>, together with the answers of the local node's
  database and the library functions the local node calls (\<open>codec\<close>). Every call the coordinator issues is recorded as a \<open>call\<close>; a call on the
  local node carries the database calls the node made. The calls of one phase run
  in their own goroutines and are joined before the phase returns; they are listed
  in the order of the slice they range over, which is also the order of the results.
\<close>

datatype call =
    LocalPrepare "db_call list"
  | LocalCommit "db_call list"
  | LocalAbort "db_call list"
  | RemotePrepare string
  | RemoteCommit string
  | RemoteAbort string

record exec_env =
  codec :: golib
  localDB :: db_env
  clientPrepare :: "string \<Rightarrow> PrepareResponse option \<times> string option"
  clientCommit :: "string \<Rightarrow> CommitResponse option \<times> string option"
  clientAbort :: "string \<Rightarrow> AbortResponse option \<times> string option"

record Coordinator =
  cluster :: Cluster
  localNode :: "ref option"

record PrepareResult =
  prr_Addr :: string
  prr_Success :: bool
  prr_Response :: "PrepareResponse option"
  prr_Error :: "string option"

record CommitResult =
  cmr_Addr :: string
  cmr_Success :: bool
  cmr_Error :: "string option"

record prepareOutcome =
  includeLocal :: bool
  localPrepared :: bool
  preparedRemotes :: "string list"
  failedNodes :: "string list"

definition preparePhase :: "exec_env \<Rightarrow> store \<Rightarrow> ref list \<Rightarrow> call list \<times> PrepareResult list" where
  "preparePhase env h participants =
     (map (\<lambda>p. RemotePrepare (Addr (h p))) participants,
      map (\<lambda>p. let (resp, err) = clientPrepare env (Addr (h p)) in
             \<lparr>prr_Addr = Addr (h p),
              prr_Success = (err = None \<and>
                 (case resp of None \<Rightarrow> False | Some r \<Rightarrow> pr_Status r = StatusReady)),
              prr_Response = resp, prr_Error = err\<rparr>) participants)"

definition commitPhase :: "exec_env \<Rightarrow> string list \<Rightarrow> call list \<times> CommitResult list" where
  "commitPhase env preparedAddrs =
     (map RemoteCommit preparedAddrs,
      map (\<lambda>nodeAddr. let (resp, err0) = clientCommit env nodeAddr;
                        err = (case resp of
                                 None \<Rightarrow> err0
                               | Some r \<Rightarrow>
                                   if err0 = None \<and> \<not> cr_Success r \<and> cr_Error r \<noteq> []
                                   then Some (cr_Error r) else err0) in
             \<lparr>cmr_Addr = nodeAddr,
              cmr_Success = (err = None \<and>
                 (case resp of None \<Rightarrow> False | Some r \<Rightarrow> cr_Success r)),
              cmr_Error = err\<rparr>) preparedAddrs)"

definition abortPhase :: "exec_env \<Rightarrow> string list \<Rightarrow> call list \<times> CommitResult list" where
  "abortPhase env participantAddrs =
     (if length participantAddrs = 0 then ([], [])
      else
        (map RemoteAbort participantAddrs,
         map (\<lambda>nodeAddr. let (resp, err) = clientAbort env nodeAddr in
                \<lparr>cmr_Addr = nodeAddr,
                 cmr_Success = (err = None \<and>
                    (case resp of None \<Rightarrow> False | Some r \<Rightarrow> ar_Success r)),
                 cmr_Error = err\<rparr>) participantAddrs))"

text \<open>The loop of \<open>prepareTransaction\<close> over the prepare results.\<close>

fun collectPrepare :: "prepareOutcome \<Rightarrow> PrepareResult list \<Rightarrow> prepareOutcome" where
  "collectPrepare outcome [] = outcome"
| "collectPrepare outcome (result # rest) =
     (if prr_Success result then
        collectPrepare (outcome\<lparr>preparedRemotes := preparedRemotes outcome @ [prr_Addr result]\<rparr>) rest
      else
        collectPrepare (outcome\<lparr>failedNodes := failedNodes outcome @ [prr_Addr result]\<rparr>) rest)"

definition prepareTransaction :: "exec_env \<Rightarrow> store \<Rightarrow> Coordinator \<Rightarrow> string \<Rightarrow> payload \<Rightarrow> bool
    \<Rightarrow> ref list \<Rightarrow> store \<times> call list \<times> prepareOutcome" where
  "prepareTransaction env h co txID pl incl remoteParticipants =
     (let outcome0 = \<lparr>includeLocal = incl, localPrepared = False,
                      preparedRemotes = [], failedNodes = []\<rparr>;
          (h1, calls1, outcome1) =
            (case localNode co of
               Some l \<Rightarrow>
                 if incl then
                   (let (n', dbcalls, ready, err) = Prepare (codec env) (localDB env) (h l) txID pl;
                        h' = h(l := n') in
                    if ready \<and> err = None then
                      (h', [LocalPrepare dbcalls], outcome0\<lparr>localPrepared := True\<rparr>)
                    else
                      (h', [LocalPrepare dbcalls],
                       outcome0\<lparr>failedNodes := failedNodes outcome0 @ [Addr n' @ '' (local)'']\<rparr>))
                 else (h, [], outcome0)
             | None \<Rightarrow> (h, [], outcome0));
          (calls2, prepareResults) = preparePhase env h1 remoteParticipants in
      (h1, calls1 @ calls2, collectPrepare outcome1 prepareResults))"

text \<open>The loop of \<open>commitTransaction\<close> over the commit results.\<close>

fun collectCommit :: "bool \<Rightarrow> CommitResult list \<Rightarrow> bool" where
  "collectCommit commitSuccess [] = commitSuccess"
| "collectCommit commitSuccess (result # rest) =
     (if \<not> cmr_Success result then collectCommit False rest else collectCommit commitSuccess rest)"

definition commitTransaction :: "exec_env \<Rightarrow> store \<Rightarrow> Coordinator \<Rightarrow> string \<Rightarrow> prepareOutcome
    \<Rightarrow> store \<times> call list \<times> bool \<times> nat" where
  "commitTransaction env h co txID outcome =
     (let (h1, calls1, localCommitSuccess) =
            (case localNode co of
               Some l \<Rightarrow>
                 if includeLocal outcome \<and> localPrepared outcome then
                   (let (n', dbcalls, err) = Commit (localDB env) (h l) txID in
                    (h(l := n'), [LocalCommit dbcalls], err = None))
                 else (h, [], True)
             | None \<Rightarrow> (h, [], True));
          (calls2, commitResults) = commitPhase env (preparedRemotes outcome);
          commitSuccess = collectCommit localCommitSuccess commitResults;
          totalCommitted = length (preparedRemotes outcome)
            + (if includeLocal outcome \<and> localPrepared outcome then 1 else 0) in
      (h1, calls1 @ calls2, commitSuccess, totalCommitted))"

definition abortTransaction :: "exec_env \<Rightarrow> store \<Rightarrow> Coordinator \<Rightarrow> string \<Rightarrow> prepareOutcome
    \<Rightarrow> string list \<Rightarrow> store \<times> call list" where
  "abortTransaction env h co txID outcome participantAddrs =
     (let (h1, calls1) =
            (case localNode co of
               Some l \<Rightarrow>
                 if includeLocal outcome \<and> localPrepared outcome then
                   (let (n', dbcalls, err) = Abort (localDB env) (h l) txID in
                    (h(l := n'), [LocalAbort dbcalls]))
                 else (h, [])
             | None \<Rightarrow> (h, []));
          (calls2, results) = abortPhase env participantAddrs in
      (h1, calls1 @ calls2))"

text \<open>
  \<open>Execute\<close>, given the transaction id that \<open>uuid.New\<close> drew. \<open>%v\<close> prints a slice of
  strings between brackets with single spaces; \<open>%d\<close> prints the decimal number.
\<close>

definition Execute :: "exec_env \<Rightarrow> store \<Rightarrow> Coordinator \<Rightarrow> string \<Rightarrow> payload
    \<Rightarrow> store \<times> call list \<times> TransactionResponse" where
  "Execute env h co txID pl =
     (let remoteParticipants = GetSlaveNodes h (cluster co);
          incl = (localNode co \<noteq> None);
          totalParticipants = length remoteParticipants + (if incl then 1 else 0) in
      if totalParticipants = 0 then
        (h, [], \<lparr>TransactionID = txID, Success = False, Message = [],
                 Error = ''No participants available''\<rparr>)
      else
        (let participantAddrs = map (\<lambda>p. Addr (h p)) remoteParticipants;
             (h1, calls1, outcome) = prepareTransaction env h co txID pl incl remoteParticipants in
         if length (failedNodes outcome) > 0 then
           (let (h2, calls2) = abortTransaction env h1 co txID outcome participantAddrs in
            (h2, calls1 @ calls2,
             \<lparr>TransactionID = txID, Success = False, Message = [],
              Error = ''Prepare failed for nodes: ['' @ join (failedNodes outcome) '' '' @ '']''\<rparr>))
         else
           (let (h2, calls2, commitSuccess, totalCommitted) = commitTransaction env h1 co txID outcome in
            if commitSuccess then
              (h2, calls1 @ calls2,
               \<lparr>TransactionID = txID, Success = True,
                Message = ''Transaction committed on '' @ itoa totalCommitted @ '' nodes'',
                Error = []\<rparr>)
            else
              (h2, calls1 @ calls2,
               \<lparr>TransactionID = txID, Success = False, Message = [],
                Error = ''Some commits failed''\<rparr>))))"

section \<open>The statements as the specification words them\<close>

text \<open>
  The INSERT statement by the specification: the columns are the keys of \<open>values\<close> in
  ascending order, each lower-cased and double-quoted; the placeholders are \<open>$1\<close> to
  \<open>$n\<close>; the bound arguments are the values in the order of the columns.
  The UPDATE statement: one \<open>"col"=$i\<close> clause per key of \<open>values\<close> in ascending order,
  joined by commas, then one per key of \<open>where\<close> in ascending order, joined by
  \<open>AND\<close>, the placeholders numbered through both; the arguments in the same order.
\<close>

text \<open>
  An identifier is valid, by the specification, when it is not empty and made of the
  characters \<open>A\<close> to \<open>Z\<close>, \<open>a\<close> to \<open>z\<close>, \<open>0\<close> to \<open>9\<close>, \<open>_\<close> and \<open>-\<close>. The identifiers of
  an action are its table, the keys of \<open>values\<close> and, for an UPDATE, the keys of
  \<open>where\<close>.
\<close>

definition identAlphabet :: string where
  "identAlphabet = ''abcdefghijklmnopqrstuvwxyzABCDEFGHIJKLMNOPQRSTUVWXYZ0123456789_-''"

definition validIdent :: "string \<Rightarrow> bool" where
  "validIdent s \<longleftrightarrow> s \<noteq> [] \<and> list_all (\<lambda>c. c \<in> set identAlphabet) s"

definition identifiers :: "SQLAction \<Rightarrow> string list" where
  "identifiers a =
     Table a # map fst (Values a) @ (if Operation a = ''UPDATE'' then map fst (Where a) else [])"

definition insertStatement :: "string \<Rightarrow> anymap \<Rightarrow> string \<times> jvalue list" where
  "insertStatement table vals =
     (let cols = sorted_list_of_set (fst ` set vals) in
      (''INSERT INTO \"'' @ toLower table @ ''\" (''
         @ join (map (\<lambda>c. quote (toLower c)) cols) '',''
         @ '') VALUES ('' @ join (map placeholder [1..<Suc (length cols)]) '','' @ '')'',
       map (index vals) cols))"

definition updateStatement :: "string \<Rightarrow> anymap \<Rightarrow> anymap \<Rightarrow> string \<times> jvalue list" where
  "updateStatement table vals wh =
     (let setCols = sorted_list_of_set (fst ` set vals);
          whereCols = sorted_list_of_set (fst ` set wh);
          n = length setCols;
          clause = (\<lambda>(c, i). quote (toLower c) @ ''='' @ placeholder i) in
      (''UPDATE \"'' @ toLower table @ ''\" SET ''
         @ join (map clause (zip setCols [1..<Suc n])) '',''
         @ '' WHERE '' @ join (map clause (zip whereCols [Suc n..<Suc n + length whereCols])) '' AND '',
       map (index vals) setCols @ map (index wh) whereCols))"

section \<open>Outcomes of the coordinator's calls\<close>

text \<open>
  The specification's words for the outcome of one call. A remote Prepare succeeds when
  the response carries status ready with no transport error; a remote Commit reports
  success when it returns no error and a response whose success flag is set; the local
  Prepare succeeds when it returns ready with no error. An abort is a call of
  \<open>Abort\<close> on the local node or an Abort request to a remote one.
\<close>

definition remoteReady :: "exec_env \<Rightarrow> string \<Rightarrow> bool" where
  "remoteReady env a =
     (case clientPrepare env a of
        (resp, err) \<Rightarrow> err = None \<and> (case resp of None \<Rightarrow> False | Some r \<Rightarrow> pr_Status r = StatusReady))"

definition remoteCommitted :: "exec_env \<Rightarrow> string \<Rightarrow> bool" where
  "remoteCommitted env a =
     (case clientCommit env a of
        (resp, err) \<Rightarrow> err = None \<and> (case resp of None \<Rightarrow> False | Some r \<Rightarrow> cr_Success r))"

definition isAbort :: "call \<Rightarrow> bool" where
  "isAbort c = (case c of LocalAbort d \<Rightarrow> True | RemoteAbort a \<Rightarrow> True | _ \<Rightarrow> False)"

text \<open>
  A rollback is a \<open>tx.Rollback\<close> among the database calls that a call on the local
  node made.
\<close>

definition isRollback :: "db_call \<Rightarrow> bool" where
  "isRollback d = (case d of TxRollback tx \<Rightarrow> True | _ \<Rightarrow> False)"

definition dbCalls :: "call \<Rightarrow> db_call list" where
  "dbCalls c = (case c of LocalPrepare d \<Rightarrow> d | LocalCommit d \<Rightarrow> d | LocalAbort d \<Rightarrow> d | _ \<Rightarrow> [])"

definition rollsBack :: "call \<Rightarrow> bool" where
  "rollsBack c = list_ex isRollback (dbCalls c)"

definition localReady :: "exec_env \<Rightarrow> store \<Rightarrow> ref \<Rightarrow> string \<Rightarrow> payload \<Rightarrow> bool" where
  "localReady env h l txID pl =
     (case Prepare (codec env) (localDB env) (h l) txID pl of
        (n', dbcalls, ready, err) \<Rightarrow> ready \<and> err = None)"

section \<open>Invariants of the membership table\<close>

text \<open>
  The table is well formed when its keys are distinct, as the keys of a Go map are,
  and every node is filed under its own address, as \<open>AddNode\<close> files it.
  \<open>leaderIs h c m\<close> says that \<open>m\<close> is the leader the specification describes: the
  master pointer is \<open>m\<close>, a live node of the table with the master role, and no live
  node of the table has a smaller address. \<open>masterValid\<close> and \<open>atMostOneLeader\<close> are
  the two invariants the specification gives for the master pointer and the roles.
\<close>

definition tableWf :: "store \<Rightarrow> Cluster \<Rightarrow> bool" where
  "tableWf h c \<longleftrightarrow> distinct (map fst (nodes c)) \<and> (\<forall>(a, p)\<in>set (nodes c). Addr (h p) = a)"

definition leaderIs :: "store \<Rightarrow> Cluster \<Rightarrow> ref \<Rightarrow> bool" where
  "leaderIs h c m \<longleftrightarrow>
     master c = Some m \<and> (Addr (h m), m) \<in> set (nodes c) \<and> IsAlive (h m) \<and> Role (h m) = RoleMaster
     \<and> (\<forall>(a, p)\<in>set (nodes c). IsAlive (h p) \<longrightarrow> Addr (h m) \<le> a)"

definition masterValid :: "store \<Rightarrow> Cluster \<Rightarrow> bool" where
  "masterValid h c \<longleftrightarrow>
     (\<forall>m. master c = Some m \<longrightarrow> (Addr (h m), m) \<in> set (nodes c) \<and> Role (h m) = RoleMaster)"

definition atMostOneLeader :: "store \<Rightarrow> Cluster \<Rightarrow> bool" where
  "atMostOneLeader h c \<longleftrightarrow>
     (\<forall>(a, p)\<in>set (nodes c). \<forall>(b, q)\<in>set (nodes c).
        Role (h p) = RoleMaster \<and> Role (h q) = RoleMaster \<longrightarrow> p = q)"

definition tableInv :: "store \<Rightarrow> Cluster \<Rightarrow> bool" where
  "tableInv h c \<longleftrightarrow> tableWf h c \<and> atMostOneLeader h c \<and> masterValid h c"

text \<open>
  The states the table reaches from \<open>NewCluster\<close> by \<open>RemoveNode\<close>, \<open>SetAlive\<close> on any
  node, \<open>ElectMaster\<close>, \<open>EvictMaster\<close> and \<open>CheckAndElect\<close>, all unrestricted, and by
  \<open>AddNode\<close> and \<open>SetMaster\<close> under two conditions each. \<open>AddNode\<close> takes a node at any
  address, held by the table or not, except that it does not replace the entry of the
  current master by another node, and the node it adds is a follower unless no entry
  at another address has the master role. \<open>SetMaster\<close> is given \<open>nil\<close>, or a node of the
  table while no node but the current master and that node has the master role.
\<close>

inductive reachable :: "store \<Rightarrow> Cluster \<Rightarrow> bool" where
  new: "reachable h NewCluster"
| add: "reachable h c \<Longrightarrow> (\<forall>m. master c = Some m \<and> Addr (h m) = Addr (h n) \<longrightarrow> m = n) \<Longrightarrow>
        Role (h n) = RoleSlave
          \<or> (\<forall>(a, p)\<in>set (nodes c). a \<noteq> Addr (h n) \<longrightarrow> Role (h p) = RoleSlave) \<Longrightarrow>
        reachable h (AddNode h c n)"
| remove: "reachable h c \<Longrightarrow> reachable h (RemoveNode c addr)"
| alive: "reachable h c \<Longrightarrow> reachable (h(n := SetAlive (h n) b)) c"
| elect: "reachable h c \<Longrightarrow> ElectMaster h c = (h', c') \<Longrightarrow> reachable h' c'"
| evict: "reachable h c \<Longrightarrow> EvictMaster h c = (h', c') \<Longrightarrow> reachable h' c'"
| check: "reachable h c \<Longrightarrow> CheckAndElect h c = (h', c', changed) \<Longrightarrow> reachable h' c'"
| setMasterNil: "reachable h c \<Longrightarrow> SetMaster h c None = (h', c') \<Longrightarrow> reachable h' c'"
| setMaster: "reachable h c \<Longrightarrow> (Addr (h m), m) \<in> set (nodes c) \<Longrightarrow>
        (\<forall>(a, p)\<in>set (nodes c). Role (h p) = RoleMaster \<longrightarrow> p = m \<or> master c = Some p) \<Longrightarrow>
        SetMaster h c (Some m) = (h', c') \<Longrightarrow> reachable h' c'"

section \<open>What follows a completed transaction\<close>

text \<open>
  \<open>nodeLater txID n m\<close>: the node state \<open>m\<close> is reached from \<open>n\<close> by any number of
  operations of the node other than a Prepare with the id \<open>txID\<close>: Prepare with
  another id, Commit and Abort with any id, \<open>SetAlive\<close> and \<open>SetRole\<close>, each with any
  payload and any answers of the database. \<open>wrapperLater\<close> is the same for the
  participant wrapper, on any store.
\<close>

inductive nodeLater :: "string \<Rightarrow> Node \<Rightarrow> Node \<Rightarrow> bool" for txID where
  same: "nodeLater txID n n"
| prepare: "nodeLater txID n m \<Longrightarrow> other \<noteq> txID \<Longrightarrow>
            Prepare lib env m other pl = (m', calls, ready, err) \<Longrightarrow> nodeLater txID n m'"
| commit: "nodeLater txID n m \<Longrightarrow> Commit env m other = (m', calls, err) \<Longrightarrow> nodeLater txID n m'"
| abort: "nodeLater txID n m \<Longrightarrow> Abort env m other = (m', calls, err) \<Longrightarrow> nodeLater txID n m'"
| alive: "nodeLater txID n m \<Longrightarrow> nodeLater txID n (SetAlive m b)"
| role: "nodeLater txID n m \<Longrightarrow> nodeLater txID n (SetRole m r)"

inductive wrapperLater :: "string \<Rightarrow> Participant \<Rightarrow> Participant \<Rightarrow> bool" for txID where
  same: "wrapperLater txID p p"
| prepare: "wrapperLater txID p q \<Longrightarrow> other \<noteq> txID \<Longrightarrow>
            Participant_Prepare lib env h q other pl = (h', q', calls, r) \<Longrightarrow> wrapperLater txID p q'"
| commit: "wrapperLater txID p q \<Longrightarrow>
            Participant_Commit env h q other = (h', q', calls, rc) \<Longrightarrow> wrapperLater txID p q'"
| abort: "wrapperLater txID p q \<Longrightarrow>
            Participant_Abort env h q other = (h', q', calls, ra) \<Longrightarrow> wrapperLater txID p q'"

section \<open>Example environments\<close>

text \<open>
  A database that answers every call with success (its table exists, a transaction
  begins with handle 1), the same database after the connection is lost for the
  statements issued outside a transaction, an UPDATE action without a \<open>where\<close> map,
  and a store of fresh nodes.
\<close>

definition okDB :: db_env where
  "okDB = \<lparr>tableExistsFirst = Inr True, ddlErr = None, tableExistsAgain = Inr True,
            beginTx = Inr 1, execErr = (\<lambda>stmt args. None), insertPreparedErr = None,
            rowsAffected = Inr 1, setCommittedErr = None, commitErr = None, rollbackErr = None,
            dbSetCommittedErr = None, dbSetAbortedErr = None\<rparr>"

definition downDB :: db_env where
  "downDB = okDB\<lparr>dbSetCommittedErr := Some ''connection refused'',
                  dbSetAbortedErr := Some ''connection refused''\<rparr>"

text \<open>
  The library of the examples: it is only asked to marshal, and the examples pass
  its string functions ASCII text only, on which \<open>strings.ToUpper\<close> maps \<open>a\<close> to \<open>z\<close>
  to upper case and keeps every other byte, and \<open>strings.TrimSpace\<close> strips the
  leading and trailing bytes 9 to 13 and 32.
\<close>

definition asciiUpper :: "char \<Rightarrow> char" where
  "asciiUpper c = (let k = (of_char c :: nat) in if 97 \<le> k \<and> k \<le> 122 then char_of (k - 32) else c)"

definition asciiSpace :: "char \<Rightarrow> bool" where
  "asciiSpace c = (let k = (of_char c :: nat) in k = 32 \<or> (9 \<le> k \<and> k \<le> 13))"

definition jsonStub :: golib where
  "jsonStub = \<lparr>unmarshal = (\<lambda>s. Inl ''unexpected end of JSON input''), marshal = (\<lambda>p. Inr ''{}''),
               trimSpace = (\<lambda>s. rev (dropWhile asciiSpace (rev (dropWhile asciiSpace s)))),
               toUpper = map asciiUpper\<rparr>"

definition updNoWhere :: SQLAction where
  "updNoWhere = \<lparr>Table = ''users'', Operation = ''update'', Values = [(''name'', JString ''Bob'')], Where = []\<rparr>"

definition emptyStore :: store where
  "emptyStore = (\<lambda>r. NewNode [] RoleSlave)"

text \<open>
  The cluster of the specification's scenarios: three live nodes \<open>a:1\<close>, \<open>b:2\<close>,
  \<open>c:3\<close> added as followers, and the same nodes after every liveness probe failed.
\<close>

definition threeNodes :: store where
  "threeNodes = emptyStore(0 := NewNode ''a:1'' RoleSlave, 1 := NewNode ''b:2'' RoleSlave,
                           2 := NewNode ''c:3'' RoleSlave)"

definition threeTable :: Cluster where
  "threeTable = \<lparr>nodes = [(''c:3'', 2), (''a:1'', 0), (''b:2'', 1)], master = None\<rparr>"

definition deadNodes :: store where
  "deadNodes = (\<lambda>p. SetAlive (threeNodes p) False)"

text \<open>
  Two live followers, one of which joined with the empty address (the join handler
  takes the address of the request as it is), and their table; and the cluster in
  which \<open>b:2\<close> was elected before the node with the empty address joined.
\<close>

definition emptyAddrNodes :: store where
  "emptyAddrNodes = emptyStore(0 := NewNode [] RoleSlave, 1 := NewNode ''b:2'' RoleSlave)"

definition emptyAddrTable :: Cluster where
  "emptyAddrTable = \<lparr>nodes = [([], 0), (''b:2'', 1)], master = None\<rparr>"

definition emptyAddrJoined :: "store \<times> Cluster" where
  "emptyAddrJoined =
     (fst (ElectMaster emptyAddrNodes (AddNode emptyAddrNodes NewCluster 1)),
      AddNode (fst (ElectMaster emptyAddrNodes (AddNode emptyAddrNodes NewCluster 1)))
        (snd (ElectMaster emptyAddrNodes (AddNode emptyAddrNodes NewCluster 1))) 0)"

text \<open>
  The same cluster after an election, after an outage of all three nodes followed by
  an election, and after \<open>SetMaster\<close> then makes \<open>b:2\<close> the master.
\<close>

definition afterElection :: "store \<times> Cluster" where
  "afterElection = ElectMaster threeNodes threeTable"

definition afterOutage :: "store \<times> Cluster" where
  "afterOutage =
     ElectMaster ((fst afterElection)(0 := SetAlive (fst afterElection 0) False,
                                      1 := SetAlive (fst afterElection 1) False,
                                      2 := SetAlive (fst afterElection 2) False))
       (snd afterElection)"

definition afterSetMaster :: "store \<times> Cluster" where
  "afterSetMaster = SetMaster (fst afterOutage) (snd afterOutage) (Some 1)"

text \<open>
  The three nodes and a fourth one that is created for the address \<open>b:2\<close> again, as
  the join handler creates a node for every request; the cluster after an election
  and the join of that node, which replaces the entry of \<open>b:2\<close>.
\<close>

definition fourNodes :: store where
  "fourNodes = threeNodes(3 := NewNode ''b:2'' RoleSlave)"

definition rejoined :: "store \<times> Cluster" where
  "rejoined = (fst (ElectMaster fourNodes threeTable),
               AddNode (fst (ElectMaster fourNodes threeTable)) (snd (ElectMaster fourNodes threeTable)) 3)"

text \<open>
  Remote nodes that answer every request with success; the same with the Prepare of
  \<open>c:3\<close> timing out; the same with the Commit of \<open>b:2\<close> answered by a server error.
  The coordinator of the elected leader \<open>a:1\<close>, which takes part with its own node, and
  an INSERT payload.
\<close>

definition okEnv :: exec_env where
  "okEnv = \<lparr>codec = jsonStub, localDB = okDB,
            clientPrepare = (\<lambda>a. (Some \<lparr>pr_Status = StatusReady, pr_Error = []\<rparr>, None)),
            clientCommit = (\<lambda>a. (Some \<lparr>cr_Success = True, cr_Error = []\<rparr>, None)),
            clientAbort = (\<lambda>a. (Some \<lparr>ar_Success = True, ar_Error = []\<rparr>, None))\<rparr>"

definition timeoutEnv :: exec_env where
  "timeoutEnv = okEnv\<lparr>clientPrepare :=
     (\<lambda>a. if a = ''c:3'' then (None, Some ''context deadline exceeded'')
           else (Some \<lparr>pr_Status = StatusReady, pr_Error = []\<rparr>, None))\<rparr>"

definition commitFailEnv :: exec_env where
  "commitFailEnv = okEnv\<lparr>clientCommit :=
     (\<lambda>a. if a = ''b:2'' then (None, Some ''transient status: 500'')
           else (Some \<lparr>cr_Success = True, cr_Error = []\<rparr>, None))\<rparr>"

definition leaderCoordinator :: Coordinator where
  "leaderCoordinator = \<lparr>cluster = snd afterElection, localNode = Some 0\<rparr>"

definition insUser :: SQLAction where
  "insUser = \<lparr>Table = ''users'', Operation = ''INSERT'',
              Values = [(''id'', JNumber 1), (''name'', JString ''Alice'')], Where = []\<rparr>"

text \<open>
  A leader \<open>a:1\<close> with a database and one follower \<open>b:2\<close>, its coordinator, and remote
  nodes that answer every request with success while the status update of the audit
  row fails on the leader's database.
\<close>

definition dbLeaderNodes :: store where
  "dbLeaderNodes = emptyStore(0 := NewNodeWithDB ''a:1'' RoleMaster, 1 := NewNode ''b:2'' RoleSlave)"

definition dbLeaderCoordinator :: Coordinator where
  "dbLeaderCoordinator =
     \<lparr>cluster = \<lparr>nodes = [(''a:1'', 0), (''b:2'', 1)], master = Some 0\<rparr>, localNode = Some 0\<rparr>"

definition auditFailEnv :: exec_env where
  "auditFailEnv = okEnv\<lparr>localDB := okDB\<lparr>setCommittedErr := Some ''connection reset by peer''\<rparr>\<rparr>"

section \<open>Statement construction is deterministic\<close>

lemma index_cong: "map_of m = map_of m' \<Longrightarrow> index m = index m'"
  by (auto simp: index_def fun_eq_iff)

lemma insertLoop_index: "index v = index v' \<Longrightarrow> insertLoop v i cs = insertLoop v' i cs"
  by (induction cs arbitrary: i) (auto split: sum.splits)

lemma assignLoop_index: "index v = index v' \<Longrightarrow> assignLoop v i cs = assignLoop v' i cs"
  by (induction cs arbitrary: i) (auto split: sum.splits)

lemma sortedKeys_set: "distinct (map fst m) \<Longrightarrow> sortedKeys m = sorted_list_of_set (fst ` set m)"
  using sorted_list_of_set_sort_remdups[of "map fst m"] by (simp add: sortedKeys_def distinct_remdups_id)

lemma sortedKeys_cong:
  assumes "distinct (map fst m)" "distinct (map fst m')" "map_of m = map_of m'"
  shows "sortedKeys m = sortedKeys m'"
proof -
  have "fst ` set m = fst ` set m'"
    using assms(3) by (metis dom_map_of_conv_image_fst)
  then show ?thesis using assms(1,2) by (simp add: sortedKeys_set)
qed

lemma safeIdent_ok: "\<not> isl (safeIdent k) \<Longrightarrow> safeIdent k = Inr (toLower k)"
  by (simp add: safeIdent_def split: if_splits)

lemma insertLoop_ok:
  "\<forall>k\<in>set cs. \<not> isl (safeIdent k) \<Longrightarrow>
   insertLoop vals i cs = Inr (map (\<lambda>c. quote (toLower c)) cs, map (index vals) cs, map placeholder [Suc i..<Suc (i + length cs)])"
proof (induction cs arbitrary: i)
  case Nil
  then show ?case by simp
next
  case (Cons c cs)
  have "[Suc i..<Suc (i + length (c # cs))] = Suc i # [Suc (Suc i)..<Suc (Suc i + length cs)]"
    using upt_conv_Cons[of "Suc i" "Suc (i + length (c # cs))"] by simp
  with Cons show ?case by (simp add: safeIdent_ok)
qed

lemma assignLoop_ok:
  "\<forall>k\<in>set cs. \<not> isl (safeIdent k) \<Longrightarrow>
   assignLoop m idx cs = Inr (map (\<lambda>(c, j). quote (toLower c) @ ''='' @ placeholder j) (zip cs [idx..<idx + length cs]),
      map (index m) cs, idx + length cs)"
proof (induction cs arbitrary: idx)
  case Nil
  then show ?case by simp
next
  case (Cons c cs)
  have "[idx..<idx + length (c # cs)] = idx # [Suc idx..<Suc idx + length cs]"
    using upt_conv_Cons[of idx "idx + length (c # cs)"] by simp
  with Cons show ?case by (simp add: safeIdent_ok)
qed

lemma set_sortedKeys: "set (sortedKeys m) = fst ` set m"
  by (simp add: sortedKeys_def)

lemma buildStatement_insert:
  assumes "distinct (map fst (Values a))" "\<not> isl (safeIdent (Table a))"
    and "\<forall>k\<in>fst ` set (Values a). \<not> isl (safeIdent k)" and "Operation a = ''INSERT''"
  shows "buildStatement a = Inr (insertStatement (Table a) (Values a))"
proof -
  define cols where "cols = sortedKeys (Values a)"
  have loop: "insertLoop (Values a) 0 cols =
        Inr (map (\<lambda>c. quote (toLower c)) cols, map (index (Values a)) cols,
             map placeholder [Suc 0..<Suc (0 + length cols)])"
    using assms(3) unfolding cols_def by (intro insertLoop_ok) (simp add: set_sortedKeys)
  have "buildStatement a =
        Inr (''INSERT INTO \"'' @ toLower (Table a) @ ''\" (''
               @ join (map (\<lambda>c. quote (toLower c)) cols) '',''
               @ '') VALUES ('' @ join (map placeholder [1..<Suc (length cols)]) '','' @ '')'',
             map (index (Values a)) cols)"
    using assms(2,4) loop by (simp add: buildStatement_def safeIdent_ok cols_def[symmetric])
  moreover have "cols = sorted_list_of_set (fst ` set (Values a))"
    using assms(1) by (simp add: cols_def sortedKeys_set)
  ultimately show ?thesis
    by (simp add: insertStatement_def Let_def)
qed

lemma buildStatement_update:
  assumes "distinct (map fst (Values a))" "distinct (map fst (Where a))" "\<not> isl (safeIdent (Table a))"
    and "\<forall>k\<in>fst ` set (Values a). \<not> isl (safeIdent k)"
    and "\<forall>k\<in>fst ` set (Where a). \<not> isl (safeIdent k)" and "Operation a = ''UPDATE''" and "Where a \<noteq> []"
  shows "buildStatement a = Inr (updateStatement (Table a) (Values a) (Where a))"
proof -
  define setCols where "setCols = sortedKeys (Values a)"
  define whereCols where "whereCols = sortedKeys (Where a)"
  define clause where "clause = (\<lambda>(c, i). quote (toLower c) @ ''='' @ placeholder i)"
  have 1: "assignLoop (Values a) (Suc 0) setCols =
        Inr (map clause (zip setCols [Suc 0..<Suc 0 + length setCols]),
             map (index (Values a)) setCols, Suc 0 + length setCols)"
    using assms(4) unfolding setCols_def clause_def by (intro assignLoop_ok) (simp add: set_sortedKeys)
  have 2: "assignLoop (Where a) idx whereCols =
        Inr (map clause (zip whereCols [idx..<idx + length whereCols]),
             map (index (Where a)) whereCols, idx + length whereCols)" for idx
    using assms(5) unfolding whereCols_def clause_def by (intro assignLoop_ok) (simp add: set_sortedKeys)
  have "length whereCols = length (Where a)"
    by (simp add: whereCols_def sortedKeys_def)
  then have 3: "whereCols \<noteq> []"
    using assms(7) by auto
  have "buildStatement a =
        Inr (''UPDATE \"'' @ toLower (Table a) @ ''\" SET ''
               @ join (map clause (zip setCols [Suc 0..<Suc 0 + length setCols])) '',''
               @ '' WHERE ''
               @ join (map clause (zip whereCols [Suc 0 + length setCols..<Suc 0 + length setCols + length whereCols])) '' AND '',
             map (index (Values a)) setCols @ map (index (Where a)) whereCols)"
    using assms(3,6) 3
    by (simp add: buildStatement_def safeIdent_ok setCols_def[symmetric] whereCols_def[symmetric] 1 2
          del: upt_Suc)
  moreover have "setCols = sorted_list_of_set (fst ` set (Values a))"
    "whereCols = sorted_list_of_set (fst ` set (Where a))"
    using assms(1,2) by (simp_all add: setCols_def whereCols_def sortedKeys_set)
  ultimately show ?thesis
    by (simp add: updateStatement_def Let_def clause_def del: upt_Suc)
qed

lemma buildStatement_cong:
  assumes "Table a' = Table a" "Operation a' = Operation a"
    and "distinct (map fst (Values a))" "distinct (map fst (Values a'))" "map_of (Values a') = map_of (Values a)"
    and "distinct (map fst (Where a))" "distinct (map fst (Where a'))" "map_of (Where a') = map_of (Where a)"
  shows "buildStatement a' = buildStatement a"
proof -
  have keys: "sortedKeys (Values a') = sortedKeys (Values a)" "sortedKeys (Where a') = sortedKeys (Where a)"
    using assms by (auto intro: sortedKeys_cong)
  have loops: "insertLoop (Values a') = insertLoop (Values a)"
     "assignLoop (Values a') = assignLoop (Values a)"
     "assignLoop (Where a') = assignLoop (Where a)"
    using assms(5,8) by (auto simp: fun_eq_iff intro!: insertLoop_index assignLoop_index index_cong)
  show ?thesis
    unfolding buildStatement_def keys loops assms(1,2) ..
qed


lemma alphabet_codes:
  "\<forall>k\<in>set ([45, 95] @ [48..<58] @ [65..<91] @ [97..<123]). char_of (k::nat) \<in> set identAlphabet"
  by code_simp

lemma identChar_alphabet: "identChar c \<longleftrightarrow> c \<in> set identAlphabet"
proof
  assume "identChar c"
  then have "(of_char c :: nat) \<in> {45, 95} \<union> {48..<58} \<union> {65..<91} \<union> {97..<123}"
    by (auto simp: identChar_def Let_def)
  also have "\<dots> = set ([45, 95] @ [48..<58] @ [65..<91] @ [97..<123])"
    unfolding set_append set_upt by auto
  finally have "(of_char c :: nat) \<in> set ([45, 95] @ [48..<58] @ [65..<91] @ [97..<123])" .
  with alphabet_codes have "char_of (of_char c :: nat) \<in> set identAlphabet"
    by blast
  then show "c \<in> set identAlphabet" by simp
next
  assume "c \<in> set identAlphabet"
  then show "identChar c"
    by (auto simp: identAlphabet_def identChar_def)
qed

lemma safeIdent_valid: "validIdent k \<Longrightarrow> safeIdent k = Inr (toLower k)"
  by (simp add: safeIdent_def validIdent_def identChar_alphabet list_all_iff)

lemma safeIdent_invalid:
  "\<not> validIdent k \<Longrightarrow>
   safeIdent k = Inl ''identifier empty'' \<or> safeIdent k = Inl ''identifier contains invalid characters''"
  by (auto simp: safeIdent_def validIdent_def identChar_alphabet list_all_iff)

lemma insertLoop_invalid:
  "\<exists>k\<in>set cs. \<not> validIdent k \<Longrightarrow>
   insertLoop vals i cs = Inl ''identifier empty''
   \<or> insertLoop vals i cs = Inl ''identifier contains invalid characters''"
proof (induction cs arbitrary: i)
  case Nil
  then show ?case by simp
next
  case (Cons c cs)
  show ?case
  proof (cases "validIdent c")
    case False
    from safeIdent_invalid[OF this] show ?thesis by auto
  next
    case True
    with Cons.prems have "\<exists>k\<in>set cs. \<not> validIdent k" by auto
    from Cons.IH[OF this, of "i + 1"] show ?thesis
      by (auto simp: safeIdent_valid[OF True])
  qed
qed

lemma assignLoop_invalid:
  "\<exists>k\<in>set cs. \<not> validIdent k \<Longrightarrow>
   assignLoop m idx cs = Inl ''identifier empty''
   \<or> assignLoop m idx cs = Inl ''identifier contains invalid characters''"
proof (induction cs arbitrary: idx)
  case Nil
  then show ?case by simp
next
  case (Cons c cs)
  show ?case
  proof (cases "validIdent c")
    case False
    from safeIdent_invalid[OF this] show ?thesis by auto
  next
    case True
    with Cons.prems have "\<exists>k\<in>set cs. \<not> validIdent k" by auto
    from Cons.IH[OF this, of "idx + 1"] show ?thesis
      by (auto simp: safeIdent_valid[OF True])
  qed
qed

lemma buildStatement_invalid:
  assumes "validateSQLAction a = None" and "\<not> list_all validIdent (identifiers a)"
  shows "buildStatement a = Inl ''identifier empty''
         \<or> buildStatement a = Inl ''identifier contains invalid characters''"
proof (cases "validIdent (Table a)")
  case False
  from safeIdent_invalid[OF this] show ?thesis
    by (auto simp: buildStatement_def)
next
  case True
  note tab = safeIdent_valid[OF True]
  show ?thesis
  proof (cases "Operation a = ''INSERT''")
    case ins: True
    with assms(2) True have "\<exists>k\<in>set (sortedKeys (Values a)). \<not> validIdent k"
      by (auto simp: identifiers_def list_all_iff set_sortedKeys)
    from insertLoop_invalid[OF this, of "Values a" 0] ins show ?thesis
      by (auto simp: buildStatement_def tab)
  next
    case False
    with assms(1) have upd: "Operation a = ''UPDATE''" and wh: "Where a \<noteq> []"
      by (auto simp: validateSQLAction_def split: if_splits)
    have len: "length (sortedKeys (Where a)) \<noteq> 0"
      using wh by (simp add: sortedKeys_def)
    from assms(2) True upd
    have bad: "(\<exists>k\<in>set (sortedKeys (Values a)). \<not> validIdent k)
               \<or> (\<exists>k\<in>set (sortedKeys (Where a)). \<not> validIdent k)"
      by (auto simp: identifiers_def list_all_iff set_sortedKeys)
    show ?thesis
    proof (cases "\<exists>k\<in>set (sortedKeys (Values a)). \<not> validIdent k")
      case True
      from assignLoop_invalid[OF this, of "Values a" 1] upd len show ?thesis
        by (auto simp: buildStatement_def tab Let_def)
    next
      case no: False
      with bad have w: "\<exists>k\<in>set (sortedKeys (Where a)). \<not> validIdent k" by blast
      have "\<forall>k\<in>set (sortedKeys (Values a)). \<not> isl (safeIdent k)"
        using no by (auto simp: safeIdent_valid)
      from assignLoop_ok[OF this, of "Values a" "Suc 0"]
      obtain sp sa ix where first: "assignLoop (Values a) (Suc 0) (sortedKeys (Values a)) = Inr (sp, sa, ix)"
        by blast
      from assignLoop_invalid[OF w, of "Where a" ix] show ?thesis
      proof (elim disjE)
        assume s: "assignLoop (Where a) ix (sortedKeys (Where a)) = Inl ''identifier empty''"
        show ?thesis
          using upd len by (simp add: buildStatement_def tab Let_def first s)
      next
        assume s: "assignLoop (Where a) ix (sortedKeys (Where a)) = Inl ''identifier contains invalid characters''"
        show ?thesis
          using upd len by (simp add: buildStatement_def tab Let_def first s)
      qed
    qed
  qed
qed

text \<open>
  C9. For every payload that passed \<open>validateSQLAction\<close>: when the table and every
  column name are valid identifiers (not empty, characters from \<open>A-Z a-z 0-9 _ -\<close>
  only), the statement handed to the database is the one the specification words:
  sorted columns, each identifier lower-cased and double-quoted, placeholders numbered
  from 1 and arguments bound in the same order, for INSERT and for UPDATE. When one
  of these identifiers is not valid, no statement is built: \<open>applySQLAction\<close> returns
  the error of \<open>safeIdent\<close> and makes no database call. The result depends on the two
  maps only, not on the order in which Go ranges over them.
\<close>

theorem statement_construction:
  assumes "distinct (map fst (Values a))" and "distinct (map fst (Where a))"
    and "validateSQLAction a = None"
  shows "(list_all validIdent (identifiers a) \<longrightarrow>
            buildStatement a =
              Inr (if Operation a = ''INSERT'' then insertStatement (Table a) (Values a)
                   else updateStatement (Table a) (Values a) (Where a)))
         \<and> (\<not> list_all validIdent (identifiers a) \<longrightarrow>
              (buildStatement a = Inl ''identifier empty''
               \<or> buildStatement a = Inl ''identifier contains invalid characters'')
              \<and> fst (applySQLAction env tx a) = [])
         \<and> (\<forall>a'::SQLAction. Table a' = Table a \<and> Operation a' = Operation a
               \<and> distinct (map fst (Values a')) \<and> distinct (map fst (Where a'))
               \<and> map_of (Values a') = map_of (Values a) \<and> map_of (Where a') = map_of (Where a)
               \<longrightarrow> buildStatement a' = buildStatement a)"
proof (intro conjI allI impI)
  assume valid: "list_all validIdent (identifiers a)"
  then have tab: "\<not> isl (safeIdent (Table a))"
    and vals: "\<forall>k\<in>fst ` set (Values a). \<not> isl (safeIdent k)"
    by (auto simp: identifiers_def list_all_iff safeIdent_valid)
  show "buildStatement a =
           Inr (if Operation a = ''INSERT'' then insertStatement (Table a) (Values a)
                else updateStatement (Table a) (Values a) (Where a))"
  proof (cases "Operation a = ''INSERT''")
    case True
    then show ?thesis using assms tab vals by (simp add: buildStatement_insert)
  next
    case False
    with assms(3) have upd: "Operation a = ''UPDATE''" "Where a \<noteq> []"
      by (auto simp: validateSQLAction_def split: if_splits)
    with valid have "\<forall>k\<in>fst ` set (Where a). \<not> isl (safeIdent k)"
      by (auto simp: identifiers_def list_all_iff safeIdent_valid)
    then show ?thesis using assms tab vals upd by (simp add: buildStatement_update)
  qed
next
  assume bad: "\<not> list_all validIdent (identifiers a)"
  from buildStatement_invalid[OF assms(3) bad]
  show "buildStatement a = Inl ''identifier empty''
        \<or> buildStatement a = Inl ''identifier contains invalid characters''" .
  then show "fst (applySQLAction env tx a) = []"
    by (auto simp: applySQLAction_def)
next
  fix a' :: SQLAction
  assume "Table a' = Table a \<and> Operation a' = Operation a
               \<and> distinct (map fst (Values a')) \<and> distinct (map fst (Where a'))
               \<and> map_of (Values a') = map_of (Values a) \<and> map_of (Where a') = map_of (Where a)"
  then show "buildStatement a' = buildStatement a"
    using assms(1,2) by (intro buildStatement_cong) simp_all
qed

theorem statement_construction_witness:
  "validateSQLAction
     \<lparr>Table = ''Users'', Operation = ''UPDATE'',
      Values = [(''name'', JString ''Bob''), (''Age'', JNumber 7)],
      Where = [(''id'', JNumber 1)]\<rparr> = None
   \<and> list_all validIdent (identifiers
     \<lparr>Table = ''Users'', Operation = ''UPDATE'',
      Values = [(''name'', JString ''Bob''), (''Age'', JNumber 7)],
      Where = [(''id'', JNumber 1)]\<rparr>)
   \<and> buildStatement
     \<lparr>Table = ''Users'', Operation = ''UPDATE'',
      Values = [(''name'', JString ''Bob''), (''Age'', JNumber 7)],
      Where = [(''id'', JNumber 1)]\<rparr>
     = Inr (''UPDATE \"users\" SET \"age\"=$1,\"name\"=$2 WHERE \"id\"=$3'',
            [JNumber 7, JString ''Bob'', JNumber 1])
   \<and> buildStatement
     \<lparr>Table = ''Users'', Operation = ''UPDATE'',
      Values = [(''Age'', JNumber 7), (''name'', JString ''Bob'')],
      Where = [(''id'', JNumber 1)]\<rparr>
     = Inr (''UPDATE \"users\" SET \"age\"=$1,\"name\"=$2 WHERE \"id\"=$3'',
            [JNumber 7, JString ''Bob'', JNumber 1])
   \<and> validateSQLAction
     \<lparr>Table = ''users'', Operation = ''INSERT'',
      Values = [(''name'', JString ''Bob''), (''age; drop'', JNumber 7)], Where = []\<rparr> = None
   \<and> \<not> list_all validIdent (identifiers
     \<lparr>Table = ''users'', Operation = ''INSERT'',
      Values = [(''name'', JString ''Bob''), (''age; drop'', JNumber 7)], Where = []\<rparr>)
   \<and> buildStatement
     \<lparr>Table = ''users'', Operation = ''INSERT'',
      Values = [(''name'', JString ''Bob''), (''age; drop'', JNumber 7)], Where = []\<rparr>
     = Inl ''identifier contains invalid characters''
   \<and> fst (applySQLAction okDB 1
     \<lparr>Table = ''users'', Operation = ''INSERT'',
      Values = [(''name'', JString ''Bob''), (''age; drop'', JNumber 7)], Where = []\<rparr>) = []"
proof -
  let ?a = "\<lparr>Table = ''Users'', Operation = ''UPDATE'',
      Values = [(''name'', JString ''Bob''), (''Age'', JNumber 7)],
      Where = [(''id'', JNumber 1)]\<rparr>"
  let ?a' = "\<lparr>Table = ''Users'', Operation = ''UPDATE'',
      Values = [(''Age'', JNumber 7), (''name'', JString ''Bob'')],
      Where = [(''id'', JNumber 1)]\<rparr>"
  let ?b = "\<lparr>Table = ''users'', Operation = ''INSERT'',
      Values = [(''name'', JString ''Bob''), (''age; drop'', JNumber 7)], Where = []\<rparr>"
  have h1: "distinct (map fst (Values ?a))" by simp
  have h2: "distinct (map fst (Where ?a))" by simp
  have h3: "validateSQLAction ?a = None" by (simp add: validateSQLAction_def)
  have h4: "list_all validIdent (identifiers ?a)" by code_simp
  note inst = statement_construction [OF h1 h2 h3, of okDB 1]
  have v: "updateStatement (Table ?a) (Values ?a) (Where ?a)
     = (''UPDATE \"users\" SET \"age\"=$1,\"name\"=$2 WHERE \"id\"=$3'',
            [JNumber 7, JString ''Bob'', JNumber 1])"
    by code_simp
  have b: "buildStatement ?a = Inr (''UPDATE \"users\" SET \"age\"=$1,\"name\"=$2 WHERE \"id\"=$3'',
            [JNumber 7, JString ''Bob'', JNumber 1])"
    using inst h4 v by simp
  have b': "buildStatement ?a' = buildStatement ?a"
    by (rule inst[THEN conjunct2, THEN conjunct2, rule_format, of ?a']) (auto simp: fun_eq_iff)
  have g1: "distinct (map fst (Values ?b))" by simp
  have g2: "distinct (map fst (Where ?b))" by simp
  have g3: "validateSQLAction ?b = None" by (simp add: validateSQLAction_def)
  have g4: "\<not> list_all validIdent (identifiers ?b)" by code_simp
  have g5: "buildStatement ?b \<noteq> Inl ''identifier empty''" by code_simp
  note bad = statement_construction [OF g1 g2 g3, of okDB 1]
  from bad g4 g5 have c: "buildStatement ?b = Inl ''identifier contains invalid characters''"
    "fst (applySQLAction okDB 1 ?b) = []"
    by blast+
  from b b' h3 h4 g3 g4 c show ?thesis by simp
qed


section \<open>The participant store\<close>

subsection \<open>A duplicate transaction id\<close>

lemma Prepare_pending:
  "pendingData n txID \<noteq> None \<Longrightarrow>
   Prepare jc env n txID pl = (n, [], False, Some ''transaction already in progress'')"
  by (simp add: Prepare_def)

lemma Participant_Prepare_pending:
  "transactions p txID \<noteq> None \<Longrightarrow>
   Participant_Prepare jc env h p txID pl =
     (h, p, [], \<lparr>pr_Status = StatusAbort, pr_Error = ''Transaction already in progress''\<rparr>)"
  by (simp add: Participant_Prepare_def)

lemma ensureSchema_pending:
  "ensureSchema env n = (n1, calls, err) \<Longrightarrow>
   pendingTx n1 = pendingTx n \<and> pendingData n1 = pendingData n \<and> TxState n1 = TxState n \<and> db n1 = db n
   \<and> set calls \<subseteq> {QueryTableExists, ExecDDL}"
  by (auto simp: ensureSchema_def ensureSchemaLocked_def Let_def split: if_splits prod.splits sum.splits option.splits)

lemma Prepare_ready_pending:
  assumes "Prepare jc env n0 txID pl = (n, calls, True, err)"
  shows "pendingData n txID \<noteq> None"
proof (cases "db n0")
  case False
  with assms show ?thesis by (auto simp: Prepare_def split: if_splits)
next
  case True
  obtain n1 c0 serr where es: "ensureSchema env n0 = (n1, c0, serr)"
    by (cases "ensureSchema env n0") auto
  with assms True show ?thesis
    by (auto simp: Prepare_def Let_def split: if_splits option.splits sum.splits prod.splits)
qed

lemma Participant_Prepare_ready:
  assumes "Participant_Prepare jc env h0 p0 txID pl = (h, p, calls, r)" "pr_Status r = StatusReady"
  shows "transactions p txID \<noteq> None \<and> pendingData (h (node p)) txID \<noteq> None"
proof -
  obtain n' c ready err where pr: "Prepare jc env (h0 (node p0)) txID pl = (n', c, ready, err)"
    by (cases "Prepare jc env (h0 (node p0)) txID pl") auto
  from assms pr have "ready" "h = h0(node p0 := n')" "node p = node p0" "transactions p txID \<noteq> None"
    by (auto simp: Participant_Prepare_def Let_def split: if_splits)
  with pr Prepare_ready_pending[of jc env "h0 (node p0)" txID pl n' c err] show ?thesis by simp
qed


lemma Participant_Prepare_node_pending:
  assumes "transactions p txID = None" "pendingData (h (node p)) txID \<noteq> None"
  shows "Participant_Prepare jc env h p txID pl =
     (h, p, [], \<lparr>pr_Status = StatusAbort, pr_Error = ''transaction already in progress''\<rparr>)"
  using assms by (simp add: Participant_Prepare_def Prepare_pending)


text \<open>
  C5, as stated, fails on the error text of the participant layer. The wrapper answers
  \<open>Transaction already in progress\<close> only for an id held in its own table. For an id
  that is pending on the node alone (here the node was prepared directly, as the
  coordinator prepares its local node) the wrapper passes on the node's error, which
  is \<open>transaction already in progress\<close> in lower case.
\<close>

theorem duplicate_prepare_counterexample:
  "Prepare jsonStub okDB (NewNode ''n:1'' RoleSlave) ''tx1'' PNil
     = ((NewNode ''n:1'' RoleSlave)\<lparr>pendingData := [''tx1'' \<mapsto> PNil], TxState := StateReady\<rparr>, [], True, None)
   \<and> Participant_Prepare jsonStub okDB
        (emptyStore(0 := (NewNode ''n:1'' RoleSlave)\<lparr>pendingData := [''tx1'' \<mapsto> PNil], TxState := StateReady\<rparr>))
        (NewParticipant 0) ''tx1'' PNil
     = (emptyStore(0 := (NewNode ''n:1'' RoleSlave)\<lparr>pendingData := [''tx1'' \<mapsto> PNil], TxState := StateReady\<rparr>),
        NewParticipant 0, [],
        \<lparr>pr_Status = StatusAbort, pr_Error = ''transaction already in progress''\<rparr>)
   \<and> ''transaction already in progress'' \<noteq> ''Transaction already in progress''"
  by (simp add: Participant_Prepare_def Prepare_def NewParticipant_def NewNode_def)

text \<open>
  C5, amended. A Prepare for a transaction id that is already pending on the node is
  rejected: the node returns \<open>(false, error)\<close> with the error
  \<open>transaction already in progress\<close>, makes no database call and is left, with its
  pending entry and open transaction, as it was; the participant wrapper answers
  ABORT and changes nothing, with the error \<open>Transaction already in progress\<close> when
  the id is in its own table and the node's \<open>transaction already in progress\<close> when
  it is not. An id is pending on either layer once a first Prepare of that layer has
  answered ready.
\<close>

theorem duplicate_prepare_rejected:
  "(pendingData n txID \<noteq> None \<longrightarrow>
      Prepare jc env n txID pl = (n, [], False, Some ''transaction already in progress''))
   \<and> (pendingData (h (node p)) txID \<noteq> None \<longrightarrow>
      Participant_Prepare jc env h p txID pl =
        (h, p, [],
         \<lparr>pr_Status = StatusAbort,
          pr_Error = (if transactions p txID = None then ''transaction already in progress''
                      else ''Transaction already in progress'')\<rparr>))
   \<and> (transactions p txID \<noteq> None \<longrightarrow>
      Participant_Prepare jc env h p txID pl =
        (h, p, [], \<lparr>pr_Status = StatusAbort, pr_Error = ''Transaction already in progress''\<rparr>))
   \<and> (Prepare jc env0 n0 txID pl0 = (n, calls0, True, err0) \<longrightarrow> pendingData n txID \<noteq> None)
   \<and> (Participant_Prepare jc env0 h0 p0 txID pl0 = (h, p, calls1, r) \<and> pr_Status r = StatusReady \<longrightarrow>
        transactions p txID \<noteq> None \<and> pendingData (h (node p)) txID \<noteq> None)"
proof (intro conjI impI)
  assume "pendingData n txID \<noteq> None"
  then show "Prepare jc env n txID pl = (n, [], False, Some ''transaction already in progress'')"
    by (rule Prepare_pending)
next
  assume "pendingData (h (node p)) txID \<noteq> None"
  then show "Participant_Prepare jc env h p txID pl =
        (h, p, [],
         \<lparr>pr_Status = StatusAbort,
          pr_Error = (if transactions p txID = None then ''transaction already in progress''
                      else ''Transaction already in progress'')\<rparr>)"
    by (cases "transactions p txID = None")
       (simp_all add: Participant_Prepare_node_pending Participant_Prepare_pending)
next
  assume "transactions p txID \<noteq> None"
  then show "Participant_Prepare jc env h p txID pl =
        (h, p, [], \<lparr>pr_Status = StatusAbort, pr_Error = ''Transaction already in progress''\<rparr>)"
    by (rule Participant_Prepare_pending)
next
  assume "Prepare jc env0 n0 txID pl0 = (n, calls0, True, err0)"
  then show "pendingData n txID \<noteq> None"
    by (rule Prepare_ready_pending)
next
  assume *: "Participant_Prepare jc env0 h0 p0 txID pl0 = (h, p, calls1, r) \<and> pr_Status r = StatusReady"
  then show "transactions p txID \<noteq> None" "pendingData (h (node p)) txID \<noteq> None"
    using Participant_Prepare_ready[of jc env0 h0 p0 txID pl0 h p calls1 r] by simp_all
qed

theorem duplicate_prepare_rejected_witness:
  "Participant_Prepare jsonStub okDB (emptyStore(0 := NewNode ''n:1'' RoleSlave)) (NewParticipant 0) ''tx1'' PNil
     = (emptyStore(0 := (NewNode ''n:1'' RoleSlave)\<lparr>pendingData := [''tx1'' \<mapsto> PNil], TxState := StateReady\<rparr>),
        (NewParticipant 0)\<lparr>transactions := [''tx1'' \<mapsto> \<lparr>ts_ID = ''tx1'', ts_State = StateReady, ts_Payload = PNil\<rparr>]\<rparr>,
        [], \<lparr>pr_Status = StatusReady, pr_Error = []\<rparr>)
   \<and> Prepare jsonStub okDB ((NewNode ''n:1'' RoleSlave)\<lparr>pendingData := [''tx1'' \<mapsto> PNil], TxState := StateReady\<rparr>) ''tx1'' PNil
     = ((NewNode ''n:1'' RoleSlave)\<lparr>pendingData := [''tx1'' \<mapsto> PNil], TxState := StateReady\<rparr>, [], False,
        Some ''transaction already in progress'')
   \<and> Participant_Prepare jsonStub okDB
        (emptyStore(0 := (NewNode ''n:1'' RoleSlave)\<lparr>pendingData := [''tx1'' \<mapsto> PNil], TxState := StateReady\<rparr>))
        ((NewParticipant 0)\<lparr>transactions := [''tx1'' \<mapsto> \<lparr>ts_ID = ''tx1'', ts_State = StateReady, ts_Payload = PNil\<rparr>]\<rparr>)
        ''tx1'' PNil
     = (emptyStore(0 := (NewNode ''n:1'' RoleSlave)\<lparr>pendingData := [''tx1'' \<mapsto> PNil], TxState := StateReady\<rparr>),
        (NewParticipant 0)\<lparr>transactions := [''tx1'' \<mapsto> \<lparr>ts_ID = ''tx1'', ts_State = StateReady, ts_Payload = PNil\<rparr>]\<rparr>,
        [], \<lparr>pr_Status = StatusAbort, pr_Error = ''Transaction already in progress''\<rparr>)
   \<and> Participant_Prepare jsonStub okDB
        (emptyStore(0 := (NewNode ''n:1'' RoleSlave)\<lparr>pendingData := [''tx1'' \<mapsto> PNil], TxState := StateReady\<rparr>))
        (NewParticipant 0) ''tx1'' PNil
     = (emptyStore(0 := (NewNode ''n:1'' RoleSlave)\<lparr>pendingData := [''tx1'' \<mapsto> PNil], TxState := StateReady\<rparr>),
        NewParticipant 0, [], \<lparr>pr_Status = StatusAbort, pr_Error = ''transaction already in progress''\<rparr>)"
proof -
  let ?n1 = "(NewNode ''n:1'' RoleSlave)\<lparr>pendingData := [''tx1'' \<mapsto> PNil], TxState := StateReady\<rparr>"
  let ?h1 = "emptyStore(0 := ?n1)"
  let ?p1 = "(NewParticipant 0)\<lparr>transactions := [''tx1'' \<mapsto> \<lparr>ts_ID = ''tx1'', ts_State = StateReady, ts_Payload = PNil\<rparr>]\<rparr>"
  have first: "Participant_Prepare jsonStub okDB (emptyStore(0 := NewNode ''n:1'' RoleSlave)) (NewParticipant 0) ''tx1'' PNil
     = (?h1, ?p1, [], \<lparr>pr_Status = StatusReady, pr_Error = []\<rparr>)"
    by (simp add: Participant_Prepare_def Prepare_def NewParticipant_def NewNode_def)
  have node_first: "Prepare jsonStub okDB (NewNode ''n:1'' RoleSlave) ''tx1'' PNil = (?n1, [], True, None)"
    by (simp add: Prepare_def NewNode_def)
  have ready: "pr_Status \<lparr>pr_Status = StatusReady, pr_Error = []\<rparr> = StatusReady"
    by simp
  note inst = duplicate_prepare_rejected
    [where n = ?n1 and txID = "''tx1''" and jc = jsonStub and env = okDB and pl = PNil
       and p = ?p1 and h = ?h1 and ?env0.0 = okDB and ?n0.0 = "NewNode ''n:1'' RoleSlave"
       and ?pl0.0 = PNil and ?calls0.0 = "[]" and ?err0.0 = None
       and ?h0.0 = "emptyStore(0 := NewNode ''n:1'' RoleSlave)" and ?p0.0 = "NewParticipant 0"
       and ?calls1.0 = "[]" and r = "\<lparr>pr_Status = StatusReady, pr_Error = []\<rparr>"]
  from inst node_first have a: "pendingData ?n1 ''tx1'' \<noteq> None"
    by blast
  from inst first ready have b: "transactions ?p1 ''tx1'' \<noteq> None"
    by blast
  have c: "pendingData (?h1 (node (NewParticipant 0))) ''tx1'' \<noteq> None"
    "transactions (NewParticipant 0) ''tx1'' = None"
    by (simp_all add: NewParticipant_def)
  have d: "pendingData (?h1 (node ?p1)) ''tx1'' \<noteq> None"
    by (simp add: NewParticipant_def)
  note other = duplicate_prepare_rejected
    [where h = ?h1 and p = "NewParticipant 0" and txID = "''tx1''" and jc = jsonStub and env = okDB
       and pl = PNil, THEN conjunct2, THEN conjunct1]
  from other c have e: "Participant_Prepare jsonStub okDB ?h1 (NewParticipant 0) ''tx1'' PNil
     = (?h1, NewParticipant 0, [], \<lparr>pr_Status = StatusAbort, pr_Error = ''transaction already in progress''\<rparr>)"
    by simp
  from inst a b d first e
  show ?thesis by simp
qed


subsection \<open>An UPDATE without a where map\<close>

lemma parse_update_without_where:
  assumes "payloadAction jc p = Inr a" "Operation (normalizeAction jc a) = ''UPDATE''" "Where a = []"
  shows "\<exists>err. parseSQLAction jc p = Inl err"
proof -
  have "Where (normalizeAction jc a) = []"
    using assms(3) by (simp add: normalizeAction_def Let_def)
  with assms(2) have "validateSQLAction (normalizeAction jc a) \<noteq> None"
    by (simp add: validateSQLAction_def)
  with assms(1) show ?thesis
    by (auto simp: parseSQLAction_def)
qed

lemma normalize_updNoWhere: "normalizeAction jsonStub updNoWhere = updNoWhere\<lparr>Operation := ''UPDATE''\<rparr>"
  by code_simp

lemma parse_updNoWhere:
  "parseSQLAction jsonStub (PAction updNoWhere) = Inl ''where is required for UPDATE''"
  by (simp add: parseSQLAction_def payloadAction_def normalize_updNoWhere validateSQLAction_def)
     (simp add: updNoWhere_def)

text \<open>
  C7, as the specification states it, fails: a node with a database begins a
  transaction before it parses the payload and rolls it back when the payload is
  refused, and a node without a database stores the payload unparsed and answers
  ready.
\<close>

theorem update_without_where_counterexample:
  "Prepare jsonStub okDB (NewNodeWithDB ''n:1'' RoleSlave) ''tx1'' (PAction updNoWhere)
     = ((NewNodeWithDB ''n:1'' RoleSlave)\<lparr>schemaOnce := True\<rparr>,
        [QueryTableExists, BeginTx, TxRollback 1], False, Some ''where is required for UPDATE'')
   \<and> Prepare jsonStub okDB (NewNode ''n:1'' RoleSlave) ''tx1'' (PAction updNoWhere)
     = ((NewNode ''n:1'' RoleSlave)\<lparr>pendingData := [''tx1'' \<mapsto> PAction updNoWhere], TxState := StateReady\<rparr>,
        [], True, None)"
  by (simp add: Prepare_def NewNodeWithDB_def NewNode_def okDB_def
        ensureSchema_def ensureSchemaLocked_def parse_updNoWhere)

text \<open>
  C7, amended. On a node with a database, Prepare refuses every UPDATE payload whose
  \<open>where\<close> map is absent or empty with \<open>(false, error)\<close>; it executes no statement of
  the payload and writes no audit row, leaves the pending maps and the transaction
  state as they were, and rolls back the transaction it began. The only database
  calls are the schema check, the begin and that rollback. An UPDATE payload is one
  whose operation reads \<open>UPDATE\<close> once the library has trimmed and upper-cased it,
  whatever \<open>strings.TrimSpace\<close> and \<open>strings.ToUpper\<close> make of the text.
\<close>

theorem update_without_where_rejected:
  assumes "payloadAction jc p = Inr a" and "Operation (normalizeAction jc a) = ''UPDATE''"
    and "Where a = []" and "db n"
  shows "\<exists>n' calls err. Prepare jc env n txID p = (n', calls, False, Some err)
           \<and> pendingTx n' = pendingTx n \<and> pendingData n' = pendingData n \<and> TxState n' = TxState n
           \<and> set calls \<subseteq> {QueryTableExists, ExecDDL, BeginTx} \<union> range TxRollback
           \<and> (\<forall>tx. BeginTx \<in> set calls \<and> beginTx env = Inr tx \<longrightarrow> TxRollback tx \<in> set calls)"
proof -
  obtain perr where perr: "parseSQLAction jc p = Inl perr"
    using parse_update_without_where[OF assms(1-3)] by blast
  obtain n1 c0 serr where es: "ensureSchema env n = (n1, c0, serr)"
    by (cases "ensureSchema env n") auto
  note inv = ensureSchema_pending[OF es]
  show ?thesis
  proof (cases "pendingData n txID \<noteq> None")
    case True
    then show ?thesis by (simp add: Prepare_def)
  next
    case False
    then have np: "pendingData n txID = None" by simp
    show ?thesis
    proof (cases serr)
      case (Some e)
      with np es assms(4) inv show ?thesis
        by (auto simp: Prepare_def)
    next
      case None
      show ?thesis
      proof (cases "beginTx env")
        case (Inl e)
        with None np es assms(4) inv show ?thesis
          by (auto simp: Prepare_def)
      next
        case (Inr tx)
        with None np es assms(4) inv perr show ?thesis
          by (auto simp: Prepare_def)
      qed
    qed
  qed
qed


theorem update_without_where_rejected_witness:
  "payloadAction jsonStub (PAction updNoWhere) = Inr updNoWhere
   \<and> Operation (normalizeAction jsonStub updNoWhere) = ''UPDATE''
   \<and> Where updNoWhere = []
   \<and> db (NewNodeWithDB ''n:1'' RoleSlave)
   \<and> (\<exists>n' calls err.
         Prepare jsonStub okDB (NewNodeWithDB ''n:1'' RoleSlave) ''tx1'' (PAction updNoWhere)
           = (n', calls, False, Some err)
         \<and> set calls \<subseteq> {QueryTableExists, ExecDDL, BeginTx} \<union> range TxRollback)"
proof -
  have h1: "payloadAction jsonStub (PAction updNoWhere) = Inr updNoWhere"
    by (simp add: payloadAction_def)
  have h2: "Operation (normalizeAction jsonStub updNoWhere) = ''UPDATE''"
    by (simp add: normalize_updNoWhere)
  have h3: "Where updNoWhere = []"
    by (simp add: updNoWhere_def)
  have h4: "db (NewNodeWithDB ''n:1'' RoleSlave)"
    by (simp add: NewNodeWithDB_def)
  from update_without_where_rejected [OF h1 h2 h3 h4, of okDB "''tx1''"] h1 h2 h3 h4
  show ?thesis by blast
qed


subsection \<open>Repeating Commit and Abort\<close>

lemma Commit_ok_state:
  assumes "Commit env n txID = (n1, calls, None)"
  shows "pendingTx n1 txID = None \<and> pendingData n1 txID = None \<and> TxState n1 = StateCommit \<and> db n1 = db n"
  using assms by (auto simp: Commit_def Let_def split: option.splits if_splits)

lemma Abort_ok_state:
  assumes "Abort env n txID = (n1, calls, None)"
  shows "pendingTx n1 txID = None \<and> pendingData n1 txID = None \<and> TxState n1 = StateAbort \<and> db n1 = db n"
  using assms by (auto simp: Abort_def Let_def split: option.splits if_splits)

lemma Commit_replay:
  assumes "pendingTx n txID = None" "pendingData n txID = None" "TxState n = StateCommit"
  shows "Commit env n txID =
           (n, if db n then [DbSetCommitted txID] else [], if db n then dbSetCommittedErr env else None)"
proof -
  have "n\<lparr>pendingData := (pendingData n)(txID := None), TxState := StateCommit\<rparr> = n"
    using assms by (cases n) (simp add: fun_upd_idem)
  with assms show ?thesis
    by (auto simp: Commit_def Let_def split: option.splits)
qed

lemma Abort_replay:
  assumes "pendingTx n txID = None" "pendingData n txID = None" "TxState n = StateAbort"
  shows "Abort env n txID =
           (n, if db n then [DbSetAborted txID] else [], if db n then dbSetAbortedErr env else None)"
proof -
  have "n\<lparr>pendingData := (pendingData n)(txID := None), TxState := StateAbort\<rparr> = n"
    using assms by (cases n) (simp add: fun_upd_idem)
  with assms show ?thesis
    by (auto simp: Abort_def Let_def split: option.splits)
qed

lemma Participant_Commit_ok:
  assumes "Participant_Commit env h p txID = (h1, p1, calls, r)" "cr_Success r"
  shows "transactions p1 txID = None"
proof -
  obtain n' c err where "Commit env (h (node p)) txID = (n', c, err)"
    by (cases "Commit env (h (node p)) txID") auto
  with assms show ?thesis
    by (auto simp: Participant_Commit_def Let_def split: option.splits if_splits)
qed

lemma Participant_Abort_ok:
  assumes "Participant_Abort env h p txID = (h1, p1, calls, r)" "ar_Success r"
  shows "transactions p1 txID = None"
proof -
  obtain n' c err where "Abort env (h (node p)) txID = (n', c, err)"
    by (cases "Abort env (h (node p)) txID") auto
  with assms show ?thesis
    by (auto simp: Participant_Abort_def Let_def split: option.splits if_splits)
qed



lemma Commit_unknown:
  assumes "pendingTx n txID = None" "pendingData n txID = None"
  shows "Commit env n txID =
           (if db n \<and> dbSetCommittedErr env \<noteq> None then (n, [DbSetCommitted txID], dbSetCommittedErr env)
            else (n\<lparr>TxState := StateCommit\<rparr>, if db n then [DbSetCommitted txID] else [], None))"
proof -
  have "n\<lparr>pendingData := (pendingData n)(txID := None), TxState := StateCommit\<rparr> = n\<lparr>TxState := StateCommit\<rparr>"
    using assms by (cases n) (simp add: fun_upd_idem)
  with assms show ?thesis
    by (auto simp: Commit_def Let_def split: option.splits)
qed

lemma Abort_unknown:
  assumes "pendingTx n txID = None" "pendingData n txID = None"
  shows "Abort env n txID =
           (if db n \<and> dbSetAbortedErr env \<noteq> None then (n, [DbSetAborted txID], dbSetAbortedErr env)
            else (n\<lparr>TxState := StateAbort\<rparr>, if db n then [DbSetAborted txID] else [], None))"
proof -
  have "n\<lparr>pendingData := (pendingData n)(txID := None), TxState := StateAbort\<rparr> = n\<lparr>TxState := StateAbort\<rparr>"
    using assms by (cases n) (simp add: fun_upd_idem)
  with assms show ?thesis
    by (auto simp: Abort_def Let_def split: option.splits)
qed

lemma Commit_other:
  assumes "Commit env n other = (n', calls, err)" "other \<noteq> txID"
  shows "pendingTx n' txID = pendingTx n txID \<and> pendingData n' txID = pendingData n txID"
  using assms by (auto simp: Commit_def Let_def split: option.splits if_splits)

lemma Abort_other:
  assumes "Abort env n other = (n', calls, err)" "other \<noteq> txID"
  shows "pendingTx n' txID = pendingTx n txID \<and> pendingData n' txID = pendingData n txID"
  using assms by (auto simp: Abort_def Let_def split: option.splits if_splits)

lemma Prepare_other:
  assumes "Prepare jc env n other pl = (n', calls, ready, err)" "other \<noteq> txID"
  shows "pendingTx n' txID = pendingTx n txID \<and> pendingData n' txID = pendingData n txID"
proof -
  obtain n1 c0 serr where es: "ensureSchema env n = (n1, c0, serr)"
    by (cases "ensureSchema env n") auto
  note inv = ensureSchema_pending[OF es]
  from assms es inv show ?thesis
    by (auto simp: Prepare_def Let_def split: if_splits option.splits sum.splits prod.splits)
qed

lemma Participant_Commit_unknown:
  "transactions p txID = None \<Longrightarrow>
   Participant_Commit env h p txID = (h, p, [], \<lparr>cr_Success = False, cr_Error = ''Transaction not found''\<rparr>)"
  by (simp add: Participant_Commit_def)

lemma Participant_Abort_unknown:
  "transactions p txID = None \<Longrightarrow>
   Participant_Abort env h p txID = (h, p, [], \<lparr>ar_Success = True, ar_Error = []\<rparr>)"
  by (simp add: Participant_Abort_def)

lemma Participant_Commit_other:
  assumes "Participant_Commit env h p other = (h', p', calls, r)" "other \<noteq> txID"
  shows "transactions p' txID = transactions p txID"
proof -
  obtain n' c err where "Commit env (h (node p)) other = (n', c, err)"
    by (cases "Commit env (h (node p)) other") auto
  with assms show ?thesis
    by (auto simp: Participant_Commit_def Let_def split: option.splits if_splits)
qed

lemma Participant_Abort_other:
  assumes "Participant_Abort env h p other = (h', p', calls, r)" "other \<noteq> txID"
  shows "transactions p' txID = transactions p txID"
proof -
  obtain n' c err where "Abort env (h (node p)) other = (n', c, err)"
    by (cases "Abort env (h (node p)) other") auto
  with assms show ?thesis
    by (auto simp: Participant_Abort_def Let_def split: option.splits if_splits)
qed

lemma Participant_Prepare_other:
  assumes "Participant_Prepare jc env h p other pl = (h', p', calls, r)" "other \<noteq> txID"
  shows "transactions p' txID = transactions p txID"
proof -
  obtain n' c ready err where "Prepare jc env (h (node p)) other pl = (n', c, ready, err)"
    by (cases "Prepare jc env (h (node p)) other pl") auto
  with assms show ?thesis
    by (auto simp: Participant_Prepare_def Let_def split: option.splits if_splits)
qed


lemma Commit_keeps_none:
  assumes "Commit env n other = (n', calls, err)" "pendingTx n txID = None" "pendingData n txID = None"
  shows "pendingTx n' txID = None \<and> pendingData n' txID = None"
  using assms by (auto simp: Commit_def Let_def split: option.splits if_splits)

lemma Abort_keeps_none:
  assumes "Abort env n other = (n', calls, err)" "pendingTx n txID = None" "pendingData n txID = None"
  shows "pendingTx n' txID = None \<and> pendingData n' txID = None"
  using assms by (auto simp: Abort_def Let_def split: option.splits if_splits)

lemma nodeLater_none:
  assumes "nodeLater txID n m" "pendingTx n txID = None" "pendingData n txID = None"
  shows "pendingTx m txID = None \<and> pendingData m txID = None"
  using assms
proof (induction rule: nodeLater.induct)
  case (same n)
  then show ?case by simp
next
  case (prepare n m other lib env pl m' calls ready err)
  with Prepare_other[OF prepare.hyps(3,2)] show ?case by simp
next
  case (commit n m env other m' calls err)
  then show ?case using Commit_keeps_none by blast
next
  case (abort n m env other m' calls err)
  then show ?case using Abort_keeps_none by blast
next
  case (alive n m b)
  then show ?case by (simp add: SetAlive_def)
next
  case (role n m r)
  then show ?case by (simp add: SetRole_def)
qed

lemma Participant_Commit_keeps_none:
  assumes "Participant_Commit env h p other = (h', p', calls, r)" "transactions p txID = None"
  shows "transactions p' txID = None"
proof -
  obtain n' c err where "Commit env (h (node p)) other = (n', c, err)"
    by (cases "Commit env (h (node p)) other") auto
  with assms show ?thesis
    by (auto simp: Participant_Commit_def Let_def split: option.splits if_splits)
qed

lemma Participant_Abort_keeps_none:
  assumes "Participant_Abort env h p other = (h', p', calls, r)" "transactions p txID = None"
  shows "transactions p' txID = None"
proof -
  obtain n' c err where "Abort env (h (node p)) other = (n', c, err)"
    by (cases "Abort env (h (node p)) other") auto
  with assms show ?thesis
    by (auto simp: Participant_Abort_def Let_def split: option.splits if_splits)
qed

lemma wrapperLater_none:
  assumes "wrapperLater txID p q" "transactions p txID = None"
  shows "transactions q txID = None"
  using assms
proof (induction rule: wrapperLater.induct)
  case (same p)
  then show ?case by simp
next
  case (prepare p q other lib env h pl h' q' calls r)
  with Participant_Prepare_other[OF prepare.hyps(3,2)] show ?case by simp
next
  case (commit p q env h other h' q' calls rc)
  then show ?case using Participant_Commit_keeps_none by blast
next
  case (abort p q env h other h' q' calls ra)
  then show ?case using Participant_Abort_keeps_none by blast
qed

text \<open>
  C6, as the specification states it, fails. On the participant wrapper a Commit
  deletes the entry of the transaction when it succeeds, and a second Commit with the
  same id answers \<open>Transaction not found\<close> without success. On a node with a database
  the repeated Commit issues the status update of the audit row again and returns
  the error of that statement when the database refuses it. And a repeated Commit
  that succeeds is not always a no-op: it sets the transaction state of the node,
  which another transaction prepared in between (\<open>tx2\<close>) had set to ready, back to
  committed.
\<close>

theorem commit_replay_counterexample:
  "Participant_Prepare jsonStub okDB (emptyStore(0 := NewNode ''n:1'' RoleSlave)) (NewParticipant 0) ''tx1'' PNil
     = (emptyStore(0 := (NewNode ''n:1'' RoleSlave)\<lparr>pendingData := [''tx1'' \<mapsto> PNil], TxState := StateReady\<rparr>),
        (NewParticipant 0)\<lparr>transactions := [''tx1'' \<mapsto> \<lparr>ts_ID = ''tx1'', ts_State = StateReady, ts_Payload = PNil\<rparr>]\<rparr>,
        [], \<lparr>pr_Status = StatusReady, pr_Error = []\<rparr>)
   \<and> Participant_Commit okDB
        (emptyStore(0 := (NewNode ''n:1'' RoleSlave)\<lparr>pendingData := [''tx1'' \<mapsto> PNil], TxState := StateReady\<rparr>))
        ((NewParticipant 0)\<lparr>transactions := [''tx1'' \<mapsto> \<lparr>ts_ID = ''tx1'', ts_State = StateReady, ts_Payload = PNil\<rparr>]\<rparr>)
        ''tx1''
     = (emptyStore(0 := (NewNode ''n:1'' RoleSlave)\<lparr>TxState := StateCommit\<rparr>), NewParticipant 0,
        [], \<lparr>cr_Success = True, cr_Error = []\<rparr>)
   \<and> Participant_Commit okDB (emptyStore(0 := (NewNode ''n:1'' RoleSlave)\<lparr>TxState := StateCommit\<rparr>))
        (NewParticipant 0) ''tx1''
     = (emptyStore(0 := (NewNode ''n:1'' RoleSlave)\<lparr>TxState := StateCommit\<rparr>), NewParticipant 0,
        [], \<lparr>cr_Success = False, cr_Error = ''Transaction not found''\<rparr>)
   \<and> Commit okDB ((NewNodeWithDB ''n:1'' RoleSlave)
          \<lparr>pendingTx := [''tx1'' \<mapsto> 1], pendingData := [''tx1'' \<mapsto> PNil], TxState := StateReady\<rparr>) ''tx1''
     = ((NewNodeWithDB ''n:1'' RoleSlave)\<lparr>TxState := StateCommit\<rparr>,
        [TxSetCommitted 1 ''tx1'', TxCommit 1], None)
   \<and> Commit downDB ((NewNodeWithDB ''n:1'' RoleSlave)\<lparr>TxState := StateCommit\<rparr>) ''tx1''
     = ((NewNodeWithDB ''n:1'' RoleSlave)\<lparr>TxState := StateCommit\<rparr>,
        [DbSetCommitted ''tx1''], Some ''connection refused'')
   \<and> Commit okDB ((NewNode ''n:1'' RoleSlave)\<lparr>pendingData := [''tx1'' \<mapsto> PNil], TxState := StateReady\<rparr>) ''tx1''
     = ((NewNode ''n:1'' RoleSlave)\<lparr>TxState := StateCommit\<rparr>, [], None)
   \<and> Prepare jsonStub okDB ((NewNode ''n:1'' RoleSlave)\<lparr>TxState := StateCommit\<rparr>) ''tx2'' PNil
     = ((NewNode ''n:1'' RoleSlave)\<lparr>pendingData := [''tx2'' \<mapsto> PNil], TxState := StateReady\<rparr>, [], True, None)
   \<and> Commit okDB ((NewNode ''n:1'' RoleSlave)\<lparr>pendingData := [''tx2'' \<mapsto> PNil], TxState := StateReady\<rparr>) ''tx1''
     = ((NewNode ''n:1'' RoleSlave)\<lparr>pendingData := [''tx2'' \<mapsto> PNil], TxState := StateCommit\<rparr>, [], None)"
  by (simp add: Participant_Prepare_def Participant_Commit_def Prepare_def Commit_def
        NewParticipant_def NewNode_def NewNodeWithDB_def okDB_def downDB_def isAlreadyFinishedErr_def)

text \<open>
  C6, amended. After a Commit (an Abort) of the node has returned without error, the
  id has no pending entry, and it has none in any later state of the node unless it
  is prepared again. Every Commit (Abort) with the same id repeated in such a state
  leaves the pending maps as they are; on a node without a database it makes no call
  and returns no error, on a node with a database it issues the status update of the
  audit row and returns what that statement returns; when it returns no error it
  sets the transaction state of the node to committed (aborted), which changes
  nothing when the repeat follows the first call at once, and leaves the node as it
  is otherwise. On the participant wrapper every repeated Abort answers success and
  touches nothing, and every repeated Commit answers \<open>Transaction not found\<close> and
  touches nothing.
\<close>

theorem commit_abort_replay:
  "(Commit env n txID = (n1, calls1, None) \<longrightarrow>
      Commit env' n1 txID =
        (n1, if db n then [DbSetCommitted txID] else [], if db n then dbSetCommittedErr env' else None))
   \<and> (Abort env n txID = (n2, calls2, None) \<longrightarrow>
      Abort env' n2 txID =
        (n2, if db n then [DbSetAborted txID] else [], if db n then dbSetAbortedErr env' else None))
   \<and> (Commit env n txID = (n1, calls1, None) \<and> nodeLater txID n1 m1 \<longrightarrow>
      Commit env' m1 txID =
        (if db m1 \<and> dbSetCommittedErr env' \<noteq> None then (m1, [DbSetCommitted txID], dbSetCommittedErr env')
         else (m1\<lparr>TxState := StateCommit\<rparr>, if db m1 then [DbSetCommitted txID] else [], None)))
   \<and> (Abort env n txID = (n2, calls2, None) \<and> nodeLater txID n2 m2 \<longrightarrow>
      Abort env' m2 txID =
        (if db m2 \<and> dbSetAbortedErr env' \<noteq> None then (m2, [DbSetAborted txID], dbSetAbortedErr env')
         else (m2\<lparr>TxState := StateAbort\<rparr>, if db m2 then [DbSetAborted txID] else [], None)))
   \<and> (Participant_Abort env h p txID = (h3, p3, calls3, ra) \<and> ar_Success ra \<and> wrapperLater txID p3 q3 \<longrightarrow>
      Participant_Abort env' g3 q3 txID = (g3, q3, [], \<lparr>ar_Success = True, ar_Error = []\<rparr>))
   \<and> (Participant_Commit env h p txID = (h4, p4, calls4, rc) \<and> cr_Success rc \<and> wrapperLater txID p4 q4 \<longrightarrow>
      Participant_Commit env' g4 q4 txID =
        (g4, q4, [], \<lparr>cr_Success = False, cr_Error = ''Transaction not found''\<rparr>))"
proof (intro conjI impI)
  assume a: "Commit env n txID = (n1, calls1, None)"
  from Commit_ok_state[OF a] Commit_replay[of n1 txID env']
  show "Commit env' n1 txID =
        (n1, if db n then [DbSetCommitted txID] else [], if db n then dbSetCommittedErr env' else None)"
    by simp
next
  assume a: "Abort env n txID = (n2, calls2, None)"
  from Abort_ok_state[OF a] Abort_replay[of n2 txID env']
  show "Abort env' n2 txID =
        (n2, if db n then [DbSetAborted txID] else [], if db n then dbSetAbortedErr env' else None)"
    by simp
next
  assume a: "Commit env n txID = (n1, calls1, None) \<and> nodeLater txID n1 m1"
  then have "pendingTx n1 txID = None" "pendingData n1 txID = None"
    using Commit_ok_state by blast+
  with a have "pendingTx m1 txID = None" "pendingData m1 txID = None"
    using nodeLater_none by blast+
  then show "Commit env' m1 txID =
        (if db m1 \<and> dbSetCommittedErr env' \<noteq> None then (m1, [DbSetCommitted txID], dbSetCommittedErr env')
         else (m1\<lparr>TxState := StateCommit\<rparr>, if db m1 then [DbSetCommitted txID] else [], None))"
    by (rule Commit_unknown)
next
  assume a: "Abort env n txID = (n2, calls2, None) \<and> nodeLater txID n2 m2"
  then have "pendingTx n2 txID = None" "pendingData n2 txID = None"
    using Abort_ok_state by blast+
  with a have "pendingTx m2 txID = None" "pendingData m2 txID = None"
    using nodeLater_none by blast+
  then show "Abort env' m2 txID =
        (if db m2 \<and> dbSetAbortedErr env' \<noteq> None then (m2, [DbSetAborted txID], dbSetAbortedErr env')
         else (m2\<lparr>TxState := StateAbort\<rparr>, if db m2 then [DbSetAborted txID] else [], None))"
    by (rule Abort_unknown)
next
  assume a: "Participant_Abort env h p txID = (h3, p3, calls3, ra) \<and> ar_Success ra \<and> wrapperLater txID p3 q3"
  then have "transactions p3 txID = None"
    using Participant_Abort_ok by blast
  with a have "transactions q3 txID = None"
    using wrapperLater_none by blast
  then show "Participant_Abort env' g3 q3 txID = (g3, q3, [], \<lparr>ar_Success = True, ar_Error = []\<rparr>)"
    by (rule Participant_Abort_unknown)
next
  assume a: "Participant_Commit env h p txID = (h4, p4, calls4, rc) \<and> cr_Success rc \<and> wrapperLater txID p4 q4"
  then have "transactions p4 txID = None"
    using Participant_Commit_ok by blast
  with a have "transactions q4 txID = None"
    using wrapperLater_none by blast
  then show "Participant_Commit env' g4 q4 txID =
        (g4, q4, [], \<lparr>cr_Success = False, cr_Error = ''Transaction not found''\<rparr>)"
    by (rule Participant_Commit_unknown)
qed


theorem commit_abort_replay_witness:
  "Commit okDB ((NewNode ''n:1'' RoleSlave)\<lparr>pendingData := [''tx1'' \<mapsto> PNil], TxState := StateReady\<rparr>) ''tx1''
     = ((NewNode ''n:1'' RoleSlave)\<lparr>TxState := StateCommit\<rparr>, [], None)
   \<and> Commit downDB ((NewNode ''n:1'' RoleSlave)\<lparr>TxState := StateCommit\<rparr>) ''tx1''
     = ((NewNode ''n:1'' RoleSlave)\<lparr>TxState := StateCommit\<rparr>, [], None)
   \<and> nodeLater ''tx1'' ((NewNode ''n:1'' RoleSlave)\<lparr>TxState := StateCommit\<rparr>)
        ((NewNode ''n:1'' RoleSlave)\<lparr>pendingData := [''tx2'' \<mapsto> PNil], TxState := StateReady\<rparr>)
   \<and> Commit downDB ((NewNode ''n:1'' RoleSlave)\<lparr>pendingData := [''tx2'' \<mapsto> PNil], TxState := StateReady\<rparr>) ''tx1''
     = ((NewNode ''n:1'' RoleSlave)\<lparr>pendingData := [''tx2'' \<mapsto> PNil], TxState := StateCommit\<rparr>, [], None)
   \<and> Abort okDB ((NewNode ''n:1'' RoleSlave)\<lparr>pendingData := [''tx1'' \<mapsto> PNil], TxState := StateReady\<rparr>) ''tx1''
     = ((NewNode ''n:1'' RoleSlave)\<lparr>TxState := StateAbort\<rparr>, [], None)
   \<and> Abort downDB ((NewNode ''n:1'' RoleSlave)\<lparr>TxState := StateAbort\<rparr>) ''tx1''
     = ((NewNode ''n:1'' RoleSlave)\<lparr>TxState := StateAbort\<rparr>, [], None)
   \<and> nodeLater ''tx1'' ((NewNode ''n:1'' RoleSlave)\<lparr>TxState := StateAbort\<rparr>)
        ((NewNode ''n:1'' RoleSlave)\<lparr>pendingData := [''tx2'' \<mapsto> PNil], TxState := StateReady\<rparr>)
   \<and> Abort downDB ((NewNode ''n:1'' RoleSlave)\<lparr>pendingData := [''tx2'' \<mapsto> PNil], TxState := StateReady\<rparr>) ''tx1''
     = ((NewNode ''n:1'' RoleSlave)\<lparr>pendingData := [''tx2'' \<mapsto> PNil], TxState := StateAbort\<rparr>, [], None)
   \<and> Participant_Abort okDB
        (emptyStore(0 := (NewNode ''n:1'' RoleSlave)\<lparr>pendingData := [''tx1'' \<mapsto> PNil], TxState := StateReady\<rparr>))
        ((NewParticipant 0)\<lparr>transactions := [''tx1'' \<mapsto> \<lparr>ts_ID = ''tx1'', ts_State = StateReady, ts_Payload = PNil\<rparr>]\<rparr>)
        ''tx1''
     = (emptyStore(0 := (NewNode ''n:1'' RoleSlave)\<lparr>TxState := StateAbort\<rparr>), NewParticipant 0,
        [], \<lparr>ar_Success = True, ar_Error = []\<rparr>)
   \<and> wrapperLater ''tx1'' (NewParticipant 0)
        ((NewParticipant 0)\<lparr>transactions := [''tx2'' \<mapsto> \<lparr>ts_ID = ''tx2'', ts_State = StateReady, ts_Payload = PNil\<rparr>]\<rparr>)
   \<and> Participant_Abort downDB emptyStore
        ((NewParticipant 0)\<lparr>transactions := [''tx2'' \<mapsto> \<lparr>ts_ID = ''tx2'', ts_State = StateReady, ts_Payload = PNil\<rparr>]\<rparr>)
        ''tx1''
     = (emptyStore,
        (NewParticipant 0)\<lparr>transactions := [''tx2'' \<mapsto> \<lparr>ts_ID = ''tx2'', ts_State = StateReady, ts_Payload = PNil\<rparr>]\<rparr>,
        [], \<lparr>ar_Success = True, ar_Error = []\<rparr>)
   \<and> Participant_Commit okDB
        (emptyStore(0 := (NewNode ''n:1'' RoleSlave)\<lparr>pendingData := [''tx1'' \<mapsto> PNil], TxState := StateReady\<rparr>))
        ((NewParticipant 0)\<lparr>transactions := [''tx1'' \<mapsto> \<lparr>ts_ID = ''tx1'', ts_State = StateReady, ts_Payload = PNil\<rparr>]\<rparr>)
        ''tx1''
     = (emptyStore(0 := (NewNode ''n:1'' RoleSlave)\<lparr>TxState := StateCommit\<rparr>), NewParticipant 0,
        [], \<lparr>cr_Success = True, cr_Error = []\<rparr>)
   \<and> Participant_Commit downDB emptyStore
        ((NewParticipant 0)\<lparr>transactions := [''tx2'' \<mapsto> \<lparr>ts_ID = ''tx2'', ts_State = StateReady, ts_Payload = PNil\<rparr>]\<rparr>)
        ''tx1''
     = (emptyStore,
        (NewParticipant 0)\<lparr>transactions := [''tx2'' \<mapsto> \<lparr>ts_ID = ''tx2'', ts_State = StateReady, ts_Payload = PNil\<rparr>]\<rparr>,
        [], \<lparr>cr_Success = False, cr_Error = ''Transaction not found''\<rparr>)"
proof -
  let ?n = "(NewNode ''n:1'' RoleSlave)\<lparr>pendingData := [''tx1'' \<mapsto> PNil], TxState := StateReady\<rparr>"
  let ?nc = "(NewNode ''n:1'' RoleSlave)\<lparr>TxState := StateCommit\<rparr>"
  let ?na = "(NewNode ''n:1'' RoleSlave)\<lparr>TxState := StateAbort\<rparr>"
  let ?m = "(NewNode ''n:1'' RoleSlave)\<lparr>pendingData := [''tx2'' \<mapsto> PNil], TxState := StateReady\<rparr>"
  let ?p = "(NewParticipant 0)\<lparr>transactions := [''tx1'' \<mapsto> \<lparr>ts_ID = ''tx1'', ts_State = StateReady, ts_Payload = PNil\<rparr>]\<rparr>"
  let ?q = "(NewParticipant 0)\<lparr>transactions := [''tx2'' \<mapsto> \<lparr>ts_ID = ''tx2'', ts_State = StateReady, ts_Payload = PNil\<rparr>]\<rparr>"
  have c1: "Commit okDB ?n ''tx1'' = (?nc, [], None)"
    by (simp add: Commit_def NewNode_def)
  have a1: "Abort okDB ?n ''tx1'' = (?na, [], None)"
    by (simp add: Abort_def NewNode_def)
  have pc: "Prepare jsonStub okDB ?nc ''tx2'' PNil = (?m, [], True, None)"
    by (simp add: Prepare_def NewNode_def)
  have pa: "Prepare jsonStub okDB ?na ''tx2'' PNil = (?m, [], True, None)"
    by (simp add: Prepare_def NewNode_def)
  have ne: "''tx2'' \<noteq> ''tx1''"
    by simp
  have l1: "nodeLater ''tx1'' ?nc ?m"
    by (rule nodeLater.prepare[OF nodeLater.same ne pc])
  have l2: "nodeLater ''tx1'' ?na ?m"
    by (rule nodeLater.prepare[OF nodeLater.same ne pa])
  have wa: "Participant_Abort okDB (emptyStore(0 := ?n)) ?p ''tx1''
     = (emptyStore(0 := ?na), NewParticipant 0, [], \<lparr>ar_Success = True, ar_Error = []\<rparr>)"
    by (simp add: Participant_Abort_def Abort_def NewNode_def NewParticipant_def)
  have wc: "Participant_Commit okDB (emptyStore(0 := ?n)) ?p ''tx1''
     = (emptyStore(0 := ?nc), NewParticipant 0, [], \<lparr>cr_Success = True, cr_Error = []\<rparr>)"
    by (simp add: Participant_Commit_def Commit_def NewNode_def NewParticipant_def)
  have wp: "Participant_Prepare jsonStub okDB emptyStore (NewParticipant 0) ''tx2'' PNil
     = (emptyStore(0 := (NewNode [] RoleSlave)\<lparr>pendingData := [''tx2'' \<mapsto> PNil], TxState := StateReady\<rparr>),
        ?q, [], \<lparr>pr_Status = StatusReady, pr_Error = []\<rparr>)"
    by (simp add: Participant_Prepare_def Prepare_def NewNode_def NewParticipant_def emptyStore_def)
  have l3: "wrapperLater ''tx1'' (NewParticipant 0) ?q"
    by (rule wrapperLater.prepare[OF wrapperLater.same ne wp])
  have nodb: "\<not> db ?n" "\<not> db ?m"
    by (simp_all add: NewNode_def)
  note inst = commit_abort_replay
    [where env = okDB and n = ?n and txID = "''tx1''" and ?n1.0 = ?nc and ?calls1.0 = "[]"
       and env' = downDB and ?n2.0 = ?na and ?calls2.0 = "[]" and ?m1.0 = ?m and ?m2.0 = ?m
       and h = "emptyStore(0 := ?n)" and p = ?p
       and ?h3.0 = "emptyStore(0 := ?na)" and ?p3.0 = "NewParticipant 0" and ?calls3.0 = "[]"
       and ra = "\<lparr>ar_Success = True, ar_Error = []\<rparr>" and ?q3.0 = ?q and ?g3.0 = emptyStore
       and ?h4.0 = "emptyStore(0 := ?nc)" and ?p4.0 = "NewParticipant 0" and ?calls4.0 = "[]"
       and rc = "\<lparr>cr_Success = True, cr_Error = []\<rparr>" and ?q4.0 = ?q and ?g4.0 = emptyStore]
  from inst c1 a1 l1 l2 wa wc l3 nodb
  show ?thesis by simp
qed

subsection \<open>Aborting an unknown transaction id\<close>

text \<open>
  C10, as stated, fails on a node with a database: the Abort of an id that was never
  prepared issues the status update of the audit row, and returns the error of that
  statement when the database refuses it.
\<close>

theorem abort_unknown_counterexample:
  "pendingTx (NewNodeWithDB ''n:1'' RoleSlave) ''tx9'' = None
   \<and> pendingData (NewNodeWithDB ''n:1'' RoleSlave) ''tx9'' = None
   \<and> Abort downDB (NewNodeWithDB ''n:1'' RoleSlave) ''tx9''
     = (NewNodeWithDB ''n:1'' RoleSlave, [DbSetAborted ''tx9''], Some ''connection refused'')"
  by (simp add: Abort_def NewNodeWithDB_def NewNode_def downDB_def okDB_def)

text \<open>
  C10, amended. For an id with no pending entry, Abort on the node returns no error
  whenever the node has no database or the status update it issues succeeds, and
  then only sets the transaction state of the node to aborted; when the update fails
  it returns that error and leaves the node as it is. The pending maps are unchanged
  in every case. Abort on the participant wrapper answers success for an id it does
  not hold, without calling the node.
\<close>

theorem abort_unknown:
  "(pendingTx n txID = None \<and> pendingData n txID = None \<longrightarrow>
      Abort env n txID =
        (if db n \<and> dbSetAbortedErr env \<noteq> None then (n, [DbSetAborted txID], dbSetAbortedErr env)
         else (n\<lparr>TxState := StateAbort\<rparr>, if db n then [DbSetAborted txID] else [], None)))
   \<and> (transactions p txID = None \<longrightarrow>
      Participant_Abort env h p txID = (h, p, [], \<lparr>ar_Success = True, ar_Error = []\<rparr>))"
proof (intro conjI impI)
  assume a: "pendingTx n txID = None \<and> pendingData n txID = None"
  then have "n\<lparr>pendingData := (pendingData n)(txID := None), TxState := StateAbort\<rparr> = n\<lparr>TxState := StateAbort\<rparr>"
    by (cases n) (simp add: fun_upd_idem)
  with a show "Abort env n txID =
        (if db n \<and> dbSetAbortedErr env \<noteq> None then (n, [DbSetAborted txID], dbSetAbortedErr env)
         else (n\<lparr>TxState := StateAbort\<rparr>, if db n then [DbSetAborted txID] else [], None))"
    by (auto simp: Abort_def Let_def split: option.splits)
next
  assume "transactions p txID = None"
  then show "Participant_Abort env h p txID = (h, p, [], \<lparr>ar_Success = True, ar_Error = []\<rparr>)"
    by (simp add: Participant_Abort_def)
qed


theorem abort_unknown_witness:
  "pendingTx (NewNode ''n:1'' RoleSlave) ''tx9'' = None
   \<and> pendingData (NewNode ''n:1'' RoleSlave) ''tx9'' = None
   \<and> transactions (NewParticipant 0) ''tx9'' = None
   \<and> Abort downDB (NewNode ''n:1'' RoleSlave) ''tx9''
     = ((NewNode ''n:1'' RoleSlave)\<lparr>TxState := StateAbort\<rparr>, [], None)
   \<and> Participant_Abort downDB emptyStore (NewParticipant 0) ''tx9''
     = (emptyStore, NewParticipant 0, [], \<lparr>ar_Success = True, ar_Error = []\<rparr>)"
proof -
  have h: "pendingTx (NewNode ''n:1'' RoleSlave) ''tx9'' = None"
    "pendingData (NewNode ''n:1'' RoleSlave) ''tx9'' = None"
    "transactions (NewParticipant 0) ''tx9'' = None"
    "\<not> db (NewNode ''n:1'' RoleSlave)"
    by (simp_all add: NewNode_def NewParticipant_def)
  from abort_unknown [of "NewNode ''n:1'' RoleSlave" "''tx9''" downDB "NewParticipant 0" emptyStore] h
  show ?thesis by simp
qed


section \<open>The election\<close>

lemma resetRoles_eq:
  "resetRoles h xs = (\<lambda>p. if p \<in> snd ` set xs then SetRole (h p) RoleSlave else h p)"
proof (induction xs arbitrary: h)
  case Nil
  then show ?case by simp
next
  case (Cons x xs)
  obtain a n where x: "x = (a, n)" by (cases x)
  show ?case
    unfolding x by (simp add: Cons.IH) (auto simp: fun_eq_iff SetRole_def)
qed

lemma hd_sort_least:
  fixes xs :: "string list"
  assumes "xs \<noteq> []"
  shows "hd (sort xs) \<in> set xs \<and> (\<forall>a\<in>set xs. hd (sort xs) \<le> a)"
proof -
  obtain y ys where s: "sort xs = y # ys"
    using assms by (cases "sort xs") (auto dest: arg_cong[where f = length])
  have "set (y # ys) = set xs" "sorted (y # ys)"
    using s[symmetric] by simp_all
  then show ?thesis
    unfolding s by auto
qed

lemma lowestAlive_empty:
  "(\<forall>(a, p)\<in>set (nodes c). \<not> IsAlive (h p)) \<Longrightarrow> lowestAliveAddrLocked h c = []"
  by (auto simp: lowestAliveAddrLocked_def Let_def filter_empty_conv)

lemma lowestAlive_least:
  assumes "(a0, p0) \<in> set (nodes c)" "IsAlive (h p0)"
  shows "(\<exists>p. (lowestAliveAddrLocked h c, p) \<in> set (nodes c) \<and> IsAlive (h p))
         \<and> (\<forall>(a, p)\<in>set (nodes c). IsAlive (h p) \<longrightarrow> lowestAliveAddrLocked h c \<le> a)"
proof -
  define L where "L = map fst (filter (\<lambda>(addr, n). IsAlive (h n)) (nodes c))"
  have mem: "a \<in> set L \<longleftrightarrow> (\<exists>p. (a, p) \<in> set (nodes c) \<and> IsAlive (h p))" for a
    unfolding L_def by force
  have "a0 \<in> set L"
    using assms mem by blast
  then have ne: "L \<noteq> []"
    by auto
  then have low: "lowestAliveAddrLocked h c = hd (sort L)"
    by (simp add: lowestAliveAddrLocked_def Let_def L_def[symmetric])
  from hd_sort_least[OF ne] have 1: "hd (sort L) \<in> set L" and 2: "\<forall>a\<in>set L. hd (sort L) \<le> a"
    by blast+
  show ?thesis
    unfolding low using 1 2 mem by blast
qed

lemma lowestAlive_in_table:
  assumes "lowestAliveAddrLocked h c \<noteq> []"
  shows "map_of (nodes c) (lowestAliveAddrLocked h c) \<noteq> None"
proof -
  have "\<not> (\<forall>(a, p)\<in>set (nodes c). \<not> IsAlive (h p))"
    using assms lowestAlive_empty by blast
  then obtain a0 p0 where "(a0, p0) \<in> set (nodes c)" "IsAlive (h p0)"
    by auto
  then obtain p where "(lowestAliveAddrLocked h c, p) \<in> set (nodes c)"
    using lowestAlive_least[of a0 p0 c h] by blast
  then show ?thesis
    using weak_map_of_SomeI by fastforce
qed


lemma electMasterLocked_none:
  "lowestAliveAddrLocked h c = [] \<Longrightarrow> electMasterLocked h c = (h, c\<lparr>master := None\<rparr>, False)"
  by (simp add: electMasterLocked_def)

lemma tableWf_map_of: "tableWf h c \<Longrightarrow> (a, p) \<in> set (nodes c) \<Longrightarrow> map_of (nodes c) a = Some p"
  by (simp add: tableWf_def)

lemma tableWf_addr: "tableWf h c \<Longrightarrow> (a, p) \<in> set (nodes c) \<Longrightarrow> Addr (h p) = a"
  unfolding tableWf_def by blast

lemma tableWf_ref_inj:
  "tableWf h c \<Longrightarrow> (a, p) \<in> set (nodes c) \<Longrightarrow> (b, p) \<in> set (nodes c) \<Longrightarrow> a = b"
  using tableWf_addr by blast

text \<open>What an election with a candidate does to the store and the table.\<close>

lemma electMasterLocked_some:
  assumes wf: "tableWf h c" and ne: "lowestAliveAddrLocked h c \<noteq> []"
  shows "\<exists>m. (lowestAliveAddrLocked h c, m) \<in> set (nodes c) \<and> IsAlive (h m)
           \<and> (\<forall>(a, p)\<in>set (nodes c). IsAlive (h p) \<longrightarrow> lowestAliveAddrLocked h c \<le> a)
           \<and> electMasterLocked h c =
               ((\<lambda>p. if p = m then SetRole (h p) RoleMaster
                      else if p \<in> snd ` set (nodes c) then SetRole (h p) RoleSlave else h p),
                c\<lparr>master := Some m\<rparr>, True)"
proof -
  have "\<not> (\<forall>(a, p)\<in>set (nodes c). \<not> IsAlive (h p))"
    using ne lowestAlive_empty by blast
  then obtain a0 p0 where "(a0, p0) \<in> set (nodes c)" "IsAlive (h p0)"
    by auto
  from lowestAlive_least[of a0 p0 c h, OF this]
  obtain m where m: "(lowestAliveAddrLocked h c, m) \<in> set (nodes c)" "IsAlive (h m)"
    and least: "\<forall>(a, p)\<in>set (nodes c). IsAlive (h p) \<longrightarrow> lowestAliveAddrLocked h c \<le> a"
    by blast
  have look: "map_of (nodes c) (lowestAliveAddrLocked h c) = Some m"
    using wf m(1) by (rule tableWf_map_of)
  have "electMasterLocked h c =
               ((\<lambda>p. if p = m then SetRole (h p) RoleMaster
                      else if p \<in> snd ` set (nodes c) then SetRole (h p) RoleSlave else h p),
                c\<lparr>master := Some m\<rparr>, True)"
    using ne look by (auto simp: electMasterLocked_def Let_def resetRoles_eq fun_eq_iff SetRole_def)
  with m least show ?thesis by blast
qed

lemma electMasterLocked_leader:
  assumes wf: "tableWf h c" and ne: "lowestAliveAddrLocked h c \<noteq> []"
    and el: "electMasterLocked h c = (h', c', ch)"
  shows "\<exists>m. leaderIs h' c' m \<and> (\<forall>(a, p)\<in>set (nodes c'). p \<noteq> m \<longrightarrow> Role (h' p) = RoleSlave)"
proof -
  from electMasterLocked_some[OF wf ne] el
  obtain m where m: "(lowestAliveAddrLocked h c, m) \<in> set (nodes c)" "IsAlive (h m)"
    and least: "\<forall>(a, p)\<in>set (nodes c). IsAlive (h p) \<longrightarrow> lowestAliveAddrLocked h c \<le> a"
    and h': "h' = (\<lambda>p. if p = m then SetRole (h p) RoleMaster
                      else if p \<in> snd ` set (nodes c) then SetRole (h p) RoleSlave else h p)"
    and c': "c' = c\<lparr>master := Some m\<rparr>"
    by auto
  have same: "IsAlive (h' p) = IsAlive (h p)" "Addr (h' p) = Addr (h p)" for p
    by (simp_all add: h' SetRole_def)
  have addr: "Addr (h m) = lowestAliveAddrLocked h c"
    using wf m(1) by (auto simp: tableWf_def)
  have "leaderIs h' c' m"
    unfolding leaderIs_def same using m least addr by (simp add: c') (simp add: h' SetRole_def)
  moreover have "\<forall>(a, p)\<in>set (nodes c'). p \<noteq> m \<longrightarrow> Role (h' p) = RoleSlave"
    by (force simp: c' h' SetRole_def)
  ultimately show ?thesis by blast
qed


lemma lowestAlive_nonempty:
  assumes "(a0, p0) \<in> set (nodes c)" "IsAlive (h p0)"
    and "\<forall>(a, p)\<in>set (nodes c). IsAlive (h p) \<longrightarrow> a \<noteq> []"
  shows "lowestAliveAddrLocked h c \<noteq> []"
  using lowestAlive_least[of a0 p0 c h, OF assms(1,2)] assms(3) by blast

lemma ElectMaster_none:
  "\<forall>(a, p)\<in>set (nodes c). \<not> IsAlive (h p) \<Longrightarrow> ElectMaster h c = (h, c\<lparr>master := None\<rparr>)"
  by (simp add: ElectMaster_def electMasterLocked_none lowestAlive_empty)

lemma CheckAndElect_none:
  assumes "\<forall>(a, p)\<in>set (nodes c). \<not> IsAlive (h p)"
  shows "master (fst (snd (CheckAndElect h c))) = None"
  using lowestAlive_empty[OF assms]
  by (auto simp: CheckAndElect_def Let_def split: option.splits prod.splits if_splits)

lemma ElectMaster_leader:
  assumes "tableWf h c" "(a0, p0) \<in> set (nodes c)" "IsAlive (h p0)"
    and "\<forall>(a, p)\<in>set (nodes c). IsAlive (h p) \<longrightarrow> a \<noteq> []"
  shows "\<exists>m. leaderIs (fst (ElectMaster h c)) (snd (ElectMaster h c)) m
          \<and> (\<forall>(a, p)\<in>set (nodes (snd (ElectMaster h c))). p \<noteq> m \<longrightarrow> Role (fst (ElectMaster h c) p) = RoleSlave)"
proof -
  obtain h' c' ch where el: "electMasterLocked h c = (h', c', ch)"
    by (cases "electMasterLocked h c") auto
  have "lowestAliveAddrLocked h c \<noteq> []"
    using assms(2-4) by (rule lowestAlive_nonempty)
  from electMasterLocked_leader[OF assms(1) this el] show ?thesis
    by (simp add: ElectMaster_def el)
qed

lemma lowestAlive_SetRole:
  "lowestAliveAddrLocked (h(m := SetRole (h m) r)) (c\<lparr>master := x\<rparr>) = lowestAliveAddrLocked h c"
proof -
  have "IsAlive ((h(m := SetRole (h m) r)) n) = IsAlive (h n)" for n
    by (simp add: SetRole_def)
  then show ?thesis
    by (simp add: lowestAliveAddrLocked_def)
qed

lemma tableWf_SetRole:
  "tableWf h c \<Longrightarrow> tableWf (h(m := SetRole (h m) r)) (c\<lparr>master := x\<rparr>)"
  by (auto simp: tableWf_def SetRole_def)

lemma CheckAndElect_leader:
  assumes wf: "tableWf h c" and al: "(a0, p0) \<in> set (nodes c)" "IsAlive (h p0)"
    and nonempty: "\<forall>(a, p)\<in>set (nodes c). IsAlive (h p) \<longrightarrow> a \<noteq> []"
    and mv: "masterValid h c"
  shows "\<exists>m. leaderIs (fst (CheckAndElect h c)) (fst (snd (CheckAndElect h c))) m"
proof -
  have ne: "lowestAliveAddrLocked h c \<noteq> []"
    using al nonempty by (rule lowestAlive_nonempty)
  show ?thesis
  proof (cases "master c")
    case None
    obtain h' c' ch where el: "electMasterLocked h c = (h', c', ch)"
      by (cases "electMasterLocked h c") auto
    from None ne el have "CheckAndElect h c = (h', c', ch)"
      by (simp add: CheckAndElect_def Let_def)
    with electMasterLocked_leader[OF wf ne el] show ?thesis by auto
  next
    case (Some m)
    show ?thesis
    proof (cases "IsAlive (h m)")
      case False
      let ?h1 = "h(m := SetRole (h m) RoleSlave)"
      let ?c1 = "c\<lparr>master := None\<rparr>"
      obtain h' c' ch where el: "electMasterLocked ?h1 ?c1 = (h', c', ch)"
        by (cases "electMasterLocked ?h1 ?c1") auto
      have ne1: "lowestAliveAddrLocked ?h1 ?c1 \<noteq> []"
        using ne by (simp add: lowestAlive_SetRole)
      from Some False ne el have "CheckAndElect h c = (h', c', ch)"
        by (simp add: CheckAndElect_def Let_def)
      with electMasterLocked_leader[OF tableWf_SetRole[OF wf] ne1 el] show ?thesis by auto
    next
      case True
      show ?thesis
      proof (cases "Addr (h m) = lowestAliveAddrLocked h c")
        case False
        obtain h' c' ch where el: "electMasterLocked h c = (h', c', ch)"
          by (cases "electMasterLocked h c") auto
        from Some True False ne el have "CheckAndElect h c = (h', c', ch)"
          by (simp add: CheckAndElect_def Let_def)
        with electMasterLocked_leader[OF wf ne el] show ?thesis by auto
      next
        case eq: True
        from Some True eq ne have ce: "CheckAndElect h c = (h, c, False)"
          by (simp add: CheckAndElect_def Let_def)
        have "(Addr (h m), m) \<in> set (nodes c)" "Role (h m) = RoleMaster"
          using mv Some by (auto simp: masterValid_def)
        moreover have "\<forall>(a, p)\<in>set (nodes c). IsAlive (h p) \<longrightarrow> Addr (h m) \<le> a"
          using lowestAlive_least[of a0 p0 c h, OF al] eq by simp
        ultimately have "leaderIs h c m"
          using Some True by (simp add: leaderIs_def)
        then show ?thesis by (auto simp: ce)
      qed
    qed
  qed
qed

lemma revive_elects:
  assumes wf: "tableWf h c" and dead: "\<forall>(a, p)\<in>set (nodes c). \<not> IsAlive (h p)"
    and mem: "(a0, p0) \<in> set (nodes c)" and a0: "a0 \<noteq> []"
  shows "master (snd (ElectMaster (h(p0 := SetAlive (h p0) True)) c)) = Some p0"
proof -
  let ?h = "h(p0 := SetAlive (h p0) True)"
  have wf': "tableWf ?h c"
    using wf by (auto simp: tableWf_def SetAlive_def)
  have only: "IsAlive (?h p) \<longleftrightarrow> p = p0" if "(a, p) \<in> set (nodes c)" for a p
    using dead that by (auto simp: SetAlive_def)
  have al: "IsAlive (?h p0)"
    by (simp add: SetAlive_def)
  have nonempty: "\<forall>(a, p)\<in>set (nodes c). IsAlive (?h p) \<longrightarrow> a \<noteq> []"
  proof clarify
    fix p assume "([], p) \<in> set (nodes c)" "IsAlive (?h p)"
    then have "p = p0" using only by blast
    with \<open>([], p) \<in> set (nodes c)\<close> mem a0 show False
      using tableWf_ref_inj[OF wf] by blast
  qed
  from ElectMaster_leader[OF wf' mem al nonempty]
  obtain m where m: "leaderIs (fst (ElectMaster ?h c)) (snd (ElectMaster ?h c)) m"
    by blast
  obtain h' c' ch where el: "electMasterLocked ?h c = (h', c', ch)"
    by (cases "electMasterLocked ?h c") auto
  have ne: "lowestAliveAddrLocked ?h c \<noteq> []"
    using mem al nonempty by (rule lowestAlive_nonempty)
  from electMasterLocked_some[OF wf' ne] el
  obtain k where k: "(lowestAliveAddrLocked ?h c, k) \<in> set (nodes c)" "IsAlive (?h k)"
     "c' = c\<lparr>master := Some k\<rparr>"
    by auto
  from k(1,2) only have "k = p0" by blast
  with k(3) el show ?thesis
    by (simp add: ElectMaster_def)
qed

text \<open>
  Where no live node has the empty address the election is the one the specification
  describes. In a well-formed table whose live nodes have non-empty addresses, an
  election (\<open>ElectMaster\<close>, and \<open>CheckAndElect\<close> from a state whose master pointer is
  valid) leaves as leader exactly the live node with the smallest address, and
  \<open>ElectMaster\<close> leaves every other node of the table a follower; when no node is
  alive both clear the master pointer; and when no node is alive, reviving one node
  and electing makes that node the master.
\<close>

lemma election_lowest_alive:
  assumes "tableWf h c" and "\<forall>(a, p)\<in>set (nodes c). IsAlive (h p) \<longrightarrow> a \<noteq> []"
  shows "((\<forall>(a, p)\<in>set (nodes c). \<not> IsAlive (h p)) \<longrightarrow>
            master (snd (ElectMaster h c)) = None \<and> master (fst (snd (CheckAndElect h c))) = None)
       \<and> ((\<exists>(a, p)\<in>set (nodes c). IsAlive (h p)) \<longrightarrow>
            (\<exists>m. leaderIs (fst (ElectMaster h c)) (snd (ElectMaster h c)) m
               \<and> (\<forall>(a, p)\<in>set (nodes (snd (ElectMaster h c))).
                     p \<noteq> m \<longrightarrow> Role (fst (ElectMaster h c) p) = RoleSlave)))
       \<and> ((\<exists>(a, p)\<in>set (nodes c). IsAlive (h p)) \<and> masterValid h c \<longrightarrow>
            (\<exists>m. leaderIs (fst (CheckAndElect h c)) (fst (snd (CheckAndElect h c))) m))
       \<and> (\<forall>a0 p0. (\<forall>(a, p)\<in>set (nodes c). \<not> IsAlive (h p)) \<and> (a0, p0) \<in> set (nodes c) \<and> a0 \<noteq> [] \<longrightarrow>
            master (snd (ElectMaster (h(p0 := SetAlive (h p0) True)) c)) = Some p0)"
proof (intro conjI impI allI)
  assume "\<forall>(a, p)\<in>set (nodes c). \<not> IsAlive (h p)"
  then show "master (snd (ElectMaster h c)) = None" "master (fst (snd (CheckAndElect h c))) = None"
    by (simp_all add: ElectMaster_none CheckAndElect_none)
next
  assume "\<exists>(a, p)\<in>set (nodes c). IsAlive (h p)"
  then obtain a0 p0 where "(a0, p0) \<in> set (nodes c)" "IsAlive (h p0)" by auto
  then show "\<exists>m. leaderIs (fst (ElectMaster h c)) (snd (ElectMaster h c)) m
               \<and> (\<forall>(a, p)\<in>set (nodes (snd (ElectMaster h c))).
                     p \<noteq> m \<longrightarrow> Role (fst (ElectMaster h c) p) = RoleSlave)"
    using ElectMaster_leader[OF assms(1) _ _ assms(2)] by blast
next
  assume "(\<exists>(a, p)\<in>set (nodes c). IsAlive (h p)) \<and> masterValid h c"
  then obtain a0 p0 where "(a0, p0) \<in> set (nodes c)" "IsAlive (h p0)" "masterValid h c" by auto
  then show "\<exists>m. leaderIs (fst (CheckAndElect h c)) (fst (snd (CheckAndElect h c))) m"
    using CheckAndElect_leader[OF assms(1) _ _ assms(2)] by blast
next
  fix a0 p0
  assume "(\<forall>(a, p)\<in>set (nodes c). \<not> IsAlive (h p)) \<and> (a0, p0) \<in> set (nodes c) \<and> a0 \<noteq> []"
  then show "master (snd (ElectMaster (h(p0 := SetAlive (h p0) True)) c)) = Some p0"
    using revive_elects[OF assms(1)] by blast
qed

text \<open>
  C3 does not hold of the code for every membership state. \<open>lowestAliveAddrLocked\<close>
  returns the empty string both when no node is alive and when the smallest live
  address is the empty string, and \<open>electMasterLocked\<close> and \<open>CheckAndElect\<close> read the
  empty string as the first case. With two live nodes, one at the empty address and
  one at \<open>b:2\<close>, the smallest live address is the empty one, and \<open>ShouldBeMaster\<close>,
  which tests the length of the list instead, says so; but \<open>ElectMaster\<close> clears
  the master pointer and gives no node the master role, and \<open>CheckAndElect\<close> elects
  nobody either, so that the cluster has live nodes and no leader after an election.
  When \<open>b:2\<close> is the elected leader and the node with the empty address joins,
  \<open>CheckAndElect\<close> deposes the live leader and elects nobody.
\<close>

theorem election_empty_address:
  "AddNode emptyAddrNodes (AddNode emptyAddrNodes NewCluster 0) 1 = emptyAddrTable
   \<and> IsAlive (emptyAddrNodes 0) \<and> IsAlive (emptyAddrNodes 1)
   \<and> Addr (emptyAddrNodes 0) = [] \<and> Addr (emptyAddrNodes 1) = ''b:2''
   \<and> ShouldBeMaster emptyAddrNodes emptyAddrTable []
   \<and> lowestAliveAddrLocked emptyAddrNodes emptyAddrTable = []
   \<and> master (snd (ElectMaster emptyAddrNodes emptyAddrTable)) = None
   \<and> Role (fst (ElectMaster emptyAddrNodes emptyAddrTable) 0) = RoleSlave
   \<and> Role (fst (ElectMaster emptyAddrNodes emptyAddrTable) 1) = RoleSlave
   \<and> snd (snd (electMasterLocked emptyAddrNodes emptyAddrTable)) = False
   \<and> master (fst (snd (CheckAndElect emptyAddrNodes emptyAddrTable))) = None
   \<and> Role (fst (CheckAndElect emptyAddrNodes emptyAddrTable) 0) = RoleSlave
   \<and> Role (fst (CheckAndElect emptyAddrNodes emptyAddrTable) 1) = RoleSlave
   \<and> snd emptyAddrJoined = \<lparr>nodes = [(''b:2'', 1), ([], 0)], master = Some 1\<rparr>
   \<and> Role (fst emptyAddrJoined 1) = RoleMaster \<and> IsAlive (fst emptyAddrJoined 1)
   \<and> master (fst (snd (CheckAndElect (fst emptyAddrJoined) (snd emptyAddrJoined)))) = None
   \<and> Role (fst (CheckAndElect (fst emptyAddrJoined) (snd emptyAddrJoined)) 0) = RoleSlave
   \<and> Role (fst (CheckAndElect (fst emptyAddrJoined) (snd emptyAddrJoined)) 1) = RoleSlave"
proof -
  have "AddNode emptyAddrNodes (AddNode emptyAddrNodes NewCluster 0) 1 = emptyAddrTable"
    by (simp add: AddNode_def NewCluster_def emptyAddrNodes_def emptyAddrTable_def NewNode_def)
  moreover have "IsAlive (emptyAddrNodes 0)" "IsAlive (emptyAddrNodes 1)"
    "Addr (emptyAddrNodes 0) = []" "Addr (emptyAddrNodes 1) = ''b:2''"
    by (simp_all add: emptyAddrNodes_def NewNode_def)
  moreover have "ShouldBeMaster emptyAddrNodes emptyAddrTable []"
    by code_simp
  moreover have "lowestAliveAddrLocked emptyAddrNodes emptyAddrTable = []"
    by code_simp
  moreover have "master (snd (ElectMaster emptyAddrNodes emptyAddrTable)) = None"
    "Role (fst (ElectMaster emptyAddrNodes emptyAddrTable) 0) = RoleSlave"
    "Role (fst (ElectMaster emptyAddrNodes emptyAddrTable) 1) = RoleSlave"
    "snd (snd (electMasterLocked emptyAddrNodes emptyAddrTable)) = False"
    by code_simp+
  moreover have "master (fst (snd (CheckAndElect emptyAddrNodes emptyAddrTable))) = None"
    "Role (fst (CheckAndElect emptyAddrNodes emptyAddrTable) 0) = RoleSlave"
    "Role (fst (CheckAndElect emptyAddrNodes emptyAddrTable) 1) = RoleSlave"
    by code_simp+
  moreover have "snd emptyAddrJoined = \<lparr>nodes = [(''b:2'', 1), ([], 0)], master = Some 1\<rparr>"
    "Role (fst emptyAddrJoined 1) = RoleMaster" "IsAlive (fst emptyAddrJoined 1)"
    "master (fst (snd (CheckAndElect (fst emptyAddrJoined) (snd emptyAddrJoined)))) = None"
    "Role (fst (CheckAndElect (fst emptyAddrJoined) (snd emptyAddrJoined)) 0) = RoleSlave"
    "Role (fst (CheckAndElect (fst emptyAddrJoined) (snd emptyAddrJoined)) 1) = RoleSlave"
    by code_simp+
  ultimately show ?thesis by blast
qed


lemma threeTable_built:
  "AddNode threeNodes (AddNode threeNodes (AddNode threeNodes NewCluster 2) 0) 1 = threeTable"
  by (simp add: AddNode_def NewCluster_def threeNodes_def threeTable_def NewNode_def)

lemma threeTable_wf: "tableWf threeNodes threeTable"
  by (simp add: tableWf_def threeNodes_def threeTable_def NewNode_def)

lemma threeTable_low: "lowestAliveAddrLocked threeNodes threeTable = ''a:1''"
  by code_simp


lemma deadNodes_wf: "tableWf deadNodes threeTable"
  by (simp add: tableWf_def deadNodes_def threeNodes_def threeTable_def NewNode_def SetAlive_def)

text \<open>
  The scenarios of the specification on the three nodes: an election among live nodes
  elects \<open>a:1\<close>, an election with all nodes dead leaves no leader, and after reviving
  \<open>b:2\<close> alone an election elects \<open>b:2\<close>.
\<close>

lemma election_scenarios:
  "tableWf threeNodes threeTable
   \<and> (\<exists>(a, p)\<in>set (nodes threeTable). IsAlive (threeNodes p))
   \<and> masterValid threeNodes threeTable
   \<and> (\<exists>m. leaderIs (fst (ElectMaster threeNodes threeTable)) (snd (ElectMaster threeNodes threeTable)) m)
   \<and> (\<exists>m. leaderIs (fst (CheckAndElect threeNodes threeTable))
              (fst (snd (CheckAndElect threeNodes threeTable))) m)
   \<and> master (snd (ElectMaster threeNodes threeTable)) = Some 0
   \<and> master (snd (ElectMaster deadNodes threeTable)) = None
   \<and> master (fst (snd (CheckAndElect deadNodes threeTable))) = None
   \<and> master (snd (ElectMaster (deadNodes(1 := SetAlive (deadNodes 1) True)) threeTable)) = Some 1"
proof -
  have ne: "\<forall>(a, p)\<in>set (nodes threeTable). IsAlive (threeNodes p) \<longrightarrow> a \<noteq> []"
    by (simp add: threeTable_def)
  have al: "\<exists>(a, p)\<in>set (nodes threeTable). IsAlive (threeNodes p)"
    by (simp add: threeTable_def threeNodes_def NewNode_def)
  have mv: "masterValid threeNodes threeTable"
    by (simp add: masterValid_def threeTable_def)
  have dead: "\<forall>(a, p)\<in>set (nodes threeTable). \<not> IsAlive (deadNodes p)"
    by (simp add: deadNodes_def SetAlive_def)
  then have ne': "\<forall>(a, p)\<in>set (nodes threeTable). IsAlive (deadNodes p) \<longrightarrow> a \<noteq> []"
    by blast
  have mem: "(''b:2'', 1) \<in> set (nodes threeTable)"
    by (simp add: threeTable_def)
  have ev: "master (snd (ElectMaster threeNodes threeTable)) = Some 0"
    by code_simp
  note live = election_lowest_alive [OF threeTable_wf ne]
  note out = election_lowest_alive [OF deadNodes_wf ne']
  from live al mv
  have "\<exists>m. leaderIs (fst (ElectMaster threeNodes threeTable)) (snd (ElectMaster threeNodes threeTable)) m"
    "\<exists>m. leaderIs (fst (CheckAndElect threeNodes threeTable))
              (fst (snd (CheckAndElect threeNodes threeTable))) m"
    by blast+
  moreover from out dead mem
  have "master (snd (ElectMaster deadNodes threeTable)) = None"
    "master (fst (snd (CheckAndElect deadNodes threeTable))) = None"
    "master (snd (ElectMaster (deadNodes(1 := SetAlive (deadNodes 1) True)) threeTable)) = Some 1"
    by blast+
  ultimately show ?thesis
    using threeTable_wf al mv ev by blast
qed


section \<open>The leader invariant\<close>

lemma set_update:
  "distinct (map fst al) \<Longrightarrow> set (AList.update k v al) = insert (k, v) {x \<in> set al. fst x \<noteq> k}"
  by (induction al) (auto simp: rev_image_eqI)

lemma inv_new: "tableInv h NewCluster"
  by (simp add: tableInv_def tableWf_def atMostOneLeader_def masterValid_def NewCluster_def)

lemma inv_add:
  assumes inv: "tableInv h c"
    and mas: "\<forall>m. master c = Some m \<and> Addr (h m) = Addr (h n) \<longrightarrow> m = n"
    and role: "Role (h n) = RoleSlave \<or> (\<forall>(a, p)\<in>set (nodes c). a \<noteq> Addr (h n) \<longrightarrow> Role (h p) = RoleSlave)"
  shows "tableInv h (AddNode h c n)"
proof -
  have wf0: "tableWf h c" and am0: "atMostOneLeader h c" and mv0: "masterValid h c"
    using inv by (simp_all add: tableInv_def)
  have d: "distinct (map fst (nodes c))"
    using wf0 by (simp add: tableWf_def)
  have mem: "(a, p) \<in> set (nodes (AddNode h c n)) \<longleftrightarrow>
               (a = Addr (h n) \<and> p = n) \<or> (a \<noteq> Addr (h n) \<and> (a, p) \<in> set (nodes c))" for a p
    by (auto simp: AddNode_def set_update[OF d])
  have mc: "master (AddNode h c n) = master c"
    by (simp add: AddNode_def)
  have wf: "tableWf h (AddNode h c n)"
    unfolding tableWf_def
  proof (intro conjI)
    show "distinct (map fst (nodes (AddNode h c n)))"
      using d by (simp add: AddNode_def distinct_update)
    show "\<forall>(a, p)\<in>set (nodes (AddNode h c n)). Addr (h p) = a"
    proof clarify
      fix a p assume "(a, p) \<in> set (nodes (AddNode h c n))"
      then have "(a = Addr (h n) \<and> p = n) \<or> (a \<noteq> Addr (h n) \<and> (a, p) \<in> set (nodes c))"
        unfolding mem .
      then show "Addr (h p) = a"
        using tableWf_addr[OF wf0, of a p] by auto
    qed
  qed
  have mv: "masterValid h (AddNode h c n)"
    unfolding masterValid_def mc
  proof (intro allI impI)
    fix m assume m: "master c = Some m"
    then have old: "(Addr (h m), m) \<in> set (nodes c)" and r: "Role (h m) = RoleMaster"
      using mv0 by (auto simp: masterValid_def)
    have "(Addr (h m), m) \<in> set (nodes (AddNode h c n))"
    proof (cases "Addr (h m) = Addr (h n)")
      case True
      with mas m have "m = n" by blast
      then show ?thesis unfolding mem by simp
    next
      case False
      with old show ?thesis unfolding mem by simp
    qed
    with r show "(Addr (h m), m) \<in> set (nodes (AddNode h c n)) \<and> Role (h m) = RoleMaster"
      by simp
  qed
  have am: "atMostOneLeader h (AddNode h c n)"
    unfolding atMostOneLeader_def
  proof clarify
    fix a p b q
    assume p: "(a, p) \<in> set (nodes (AddNode h c n))" and q: "(b, q) \<in> set (nodes (AddNode h c n))"
      and rp: "Role (h p) = RoleMaster" and rq: "Role (h q) = RoleMaster"
    have nm: "Role (h n) = RoleMaster \<Longrightarrow> (a', p') \<in> set (nodes c) \<Longrightarrow> a' \<noteq> Addr (h n)
        \<Longrightarrow> Role (h p') = RoleSlave" for a' p'
    proof -
      assume 1: "Role (h n) = RoleMaster" and 2: "(a', p') \<in> set (nodes c)" and 3: "a' \<noteq> Addr (h n)"
      from role 1 have "\<forall>(a, p)\<in>set (nodes c). a \<noteq> Addr (h n) \<longrightarrow> Role (h p) = RoleSlave"
        by simp
      then have "case (a', p') of (a, p) \<Rightarrow> a \<noteq> Addr (h n) \<longrightarrow> Role (h p) = RoleSlave"
        using 2 by (rule bspec)
      with 3 show ?thesis by simp
    qed
    from p have pc: "(a = Addr (h n) \<and> p = n) \<or> (a \<noteq> Addr (h n) \<and> (a, p) \<in> set (nodes c))"
      unfolding mem .
    from q have qc: "(b = Addr (h n) \<and> q = n) \<or> (b \<noteq> Addr (h n) \<and> (b, q) \<in> set (nodes c))"
      unfolding mem .
    from pc show "p = q"
    proof (elim disjE conjE)
      assume pn: "p = n"
      from qc show ?thesis
      proof (elim disjE conjE)
        assume "q = n"
        with pn show ?thesis by simp
      next
        assume "b \<noteq> Addr (h n)" "(b, q) \<in> set (nodes c)"
        with nm[of b q] rp pn have "Role (h q) = RoleSlave" by simp
        with rq show ?thesis by simp
      qed
    next
      assume pa: "a \<noteq> Addr (h n)" and po: "(a, p) \<in> set (nodes c)"
      from qc show ?thesis
      proof (elim disjE conjE)
        assume "q = n"
        with nm[of a p] rq pa po have "Role (h p) = RoleSlave" by simp
        with rp show ?thesis by simp
      next
        assume "b \<noteq> Addr (h n)" and qo: "(b, q) \<in> set (nodes c)"
        from am0 have "\<forall>(a, p)\<in>set (nodes c). \<forall>(b, q)\<in>set (nodes c).
            Role (h p) = RoleMaster \<and> Role (h q) = RoleMaster \<longrightarrow> p = q"
          by (simp add: atMostOneLeader_def)
        then have "\<forall>(b, q)\<in>set (nodes c). Role (h p) = RoleMaster \<and> Role (h q) = RoleMaster \<longrightarrow> p = q"
          using po by (auto dest: bspec)
        then have "Role (h p) = RoleMaster \<and> Role (h q) = RoleMaster \<longrightarrow> p = q"
          using qo by (auto dest: bspec)
        with rp rq show ?thesis by simp
      qed
    qed
  qed
  from wf am mv show ?thesis by (simp add: tableInv_def)
qed

lemma inv_remove:
  assumes inv: "tableInv h c"
  shows "tableInv h (RemoveNode c addr)"
proof (cases "map_of (nodes c) addr")
  case None
  then show ?thesis using inv by (simp add: RemoveNode_def)
next
  case (Some n)
  have sub: "set (AList.delete addr (nodes c)) \<subseteq> set (nodes c)"
    by (auto simp: AList.delete_eq)
  have nodes: "nodes (RemoveNode c addr) = AList.delete addr (nodes c)"
    using Some by (simp add: RemoveNode_def)
  have mas: "master (RemoveNode c addr) = (if master c = Some n then None else master c)"
    using Some by (simp add: RemoveNode_def)
  have wf: "tableWf h (RemoveNode c addr)"
    using inv sub unfolding tableInv_def tableWf_def nodes by (auto simp: distinct_delete)
  have am: "atMostOneLeader h (RemoveNode c addr)"
    using inv sub unfolding tableInv_def atMostOneLeader_def nodes by blast
  have "masterValid h (RemoveNode c addr)"
    unfolding masterValid_def
  proof (intro allI impI)
    fix m assume m: "master (RemoveNode c addr) = Some m"
    then have mc: "master c = Some m" "m \<noteq> n"
      unfolding mas by (auto split: if_splits)
    then have in_t: "(Addr (h m), m) \<in> set (nodes c)" and r: "Role (h m) = RoleMaster"
      using inv by (auto simp: tableInv_def masterValid_def)
    have "tableWf h c"
      using inv by (simp add: tableInv_def)
    then have "map_of (nodes c) (Addr (h m)) = Some m"
      using in_t by (rule tableWf_map_of)
    with Some mc(2) have "Addr (h m) \<noteq> addr" by auto
    with in_t have "(Addr (h m), m) \<in> set (AList.delete addr (nodes c))"
      by (auto simp: AList.delete_eq)
    with r show "(Addr (h m), m) \<in> set (nodes (RemoveNode c addr)) \<and> Role (h m) = RoleMaster"
      by (simp add: nodes)
  qed
  with wf am show ?thesis by (simp add: tableInv_def)
qed

lemma inv_alive: "tableInv h c \<Longrightarrow> tableInv (h(n := SetAlive (h n) b)) c"
  unfolding tableInv_def tableWf_def atMostOneLeader_def masterValid_def SetAlive_def
  by (auto split: if_splits)

lemma inv_demote:
  "tableInv h c \<Longrightarrow> tableInv (h(m := SetRole (h m) RoleSlave)) (c\<lparr>master := None\<rparr>)"
  unfolding tableInv_def tableWf_def atMostOneLeader_def masterValid_def SetRole_def
  by (auto split: if_splits)

lemma inv_clear: "tableInv h c \<Longrightarrow> tableInv h (c\<lparr>master := None\<rparr>)"
  unfolding tableInv_def tableWf_def atMostOneLeader_def masterValid_def
  by auto


lemma inv_electLocked:
  assumes inv: "tableInv h c" and el: "electMasterLocked h c = (h', c', ch)"
  shows "tableInv h' c'"
proof (cases "lowestAliveAddrLocked h c = []")
  case True
  with el have "h' = h" "c' = c\<lparr>master := None\<rparr>"
    by (simp_all add: electMasterLocked_none)
  with inv show ?thesis by (simp add: inv_clear)
next
  case False
  have wf: "tableWf h c"
    using inv by (simp add: tableInv_def)
  from electMasterLocked_some[OF wf False] el
  obtain m where m: "(lowestAliveAddrLocked h c, m) \<in> set (nodes c)"
    and h': "h' = (\<lambda>p. if p = m then SetRole (h p) RoleMaster
                      else if p \<in> snd ` set (nodes c) then SetRole (h p) RoleSlave else h p)"
    and c': "c' = c\<lparr>master := Some m\<rparr>"
    by auto
  have addr: "Addr (h' p) = Addr (h p)" for p
    by (simp add: h' SetRole_def)
  have wf': "tableWf h' c'"
    using wf unfolding tableWf_def addr by (simp add: c')
  have role: "Role (h' p) = RoleMaster \<longleftrightarrow> p = m" if "(a, p) \<in> set (nodes c)" for a p
    using that by (force simp: h' SetRole_def)
  have am: "atMostOneLeader h' c'"
    unfolding atMostOneLeader_def using role by (auto simp: c')
  have "Addr (h m) = lowestAliveAddrLocked h c"
    using wf m by (rule tableWf_addr)
  then have "masterValid h' c'"
    unfolding masterValid_def addr using m role by (auto simp: c')
  with wf' am show ?thesis by (simp add: tableInv_def)
qed

lemma inv_elect: "tableInv h c \<Longrightarrow> ElectMaster h c = (h', c') \<Longrightarrow> tableInv h' c'"
  by (cases "electMasterLocked h c") (auto simp: ElectMaster_def dest: inv_electLocked)

lemma inv_evict: "tableInv h c \<Longrightarrow> EvictMaster h c = (h', c') \<Longrightarrow> tableInv h' c'"
  by (auto simp: EvictMaster_def inv_demote split: option.splits)

lemma inv_check:
  assumes inv: "tableInv h c" and ce: "CheckAndElect h c = (h', c', ch)"
  shows "tableInv h' c'"
proof -
  define h1 where "h1 = (case master c of None \<Rightarrow> h
      | Some m \<Rightarrow> if \<not> IsAlive (h m) then h(m := SetRole (h m) RoleSlave) else h)"
  define c1 where "c1 = (case master c of None \<Rightarrow> c
      | Some m \<Rightarrow> if \<not> IsAlive (h m) then c\<lparr>master := None\<rparr> else c)"
  define cur where "cur = (case master c of None \<Rightarrow> []
      | Some m \<Rightarrow> if \<not> IsAlive (h m) then [] else Addr (h m))"
  have inv1: "tableInv h1 c1"
    using inv by (auto simp: h1_def c1_def inv_demote split: option.splits)
  have ce': "CheckAndElect h c =
      (if lowestAliveAddrLocked h c = [] then
        (case master c1 of
           None \<Rightarrow> (h1, c1, False)
         | Some m \<Rightarrow> (h1(m := SetRole (h1 m) RoleSlave), c1\<lparr>master := None\<rparr>, False))
      else if master c1 = None \<or> cur \<noteq> lowestAliveAddrLocked h c then electMasterLocked h1 c1
      else (h1, c1, False))"
    by (simp add: CheckAndElect_def Let_def h1_def c1_def cur_def split: option.splits)
  show ?thesis
  proof (cases "lowestAliveAddrLocked h c = []")
    case True
    with ce ce' inv1 show ?thesis
      by (auto simp: inv_demote split: option.splits)
  next
    case False
    show ?thesis
    proof (cases "master c1 = None \<or> cur \<noteq> lowestAliveAddrLocked h c")
      case True
      with False ce ce' have "electMasterLocked h1 c1 = (h', c', ch)" by simp
      with inv1 show ?thesis by (rule inv_electLocked)
    next
      case no: False
      with False ce ce' have "h' = h1" "c' = c1" by simp_all
      with inv1 show ?thesis by simp
    qed
  qed
qed

lemma inv_setMasterNil: "tableInv h c \<Longrightarrow> SetMaster h c None = (h', c') \<Longrightarrow> tableInv h' c'"
  by (auto simp: SetMaster_def Let_def inv_demote inv_clear split: option.splits)

lemma inv_setMaster:
  assumes inv: "tableInv h c" and mem: "(Addr (h m), m) \<in> set (nodes c)"
    and others: "\<forall>(a, p)\<in>set (nodes c). Role (h p) = RoleMaster \<longrightarrow> p = m \<or> master c = Some p"
    and sm: "SetMaster h c (Some m) = (h', c')"
  shows "tableInv h' c'"
proof -
  define h1 where "h1 = (case master c of None \<Rightarrow> h | Some old \<Rightarrow> h(old := SetRole (h old) RoleSlave))"
  have h': "h' = h1(m := SetRole (h1 m) RoleMaster)" and c': "c' = c\<lparr>master := Some m\<rparr>"
    using sm by (simp_all add: SetMaster_def Let_def h1_def)
  have addr: "Addr (h' p) = Addr (h p)" for p
    by (auto simp: h' h1_def SetRole_def split: option.splits)
  have wf': "tableWf h' c'"
    using inv unfolding tableInv_def tableWf_def addr by (simp add: c')
  have role: "Role (h' p) = RoleMaster \<longleftrightarrow> p = m" if "(a, p) \<in> set (nodes c)" for a p
  proof
    assume r: "Role (h' p) = RoleMaster"
    show "p = m"
    proof (rule ccontr)
      assume pm: "p \<noteq> m"
      with r have r1: "Role (h1 p) = RoleMaster" by (simp add: h')
      then have "Role (h p) = RoleMaster" "master c \<noteq> Some p"
        by (auto simp: h1_def SetRole_def split: option.splits if_splits)
      with others that pm show False by blast
    qed
  next
    assume "p = m"
    then show "Role (h' p) = RoleMaster" by (simp add: h' SetRole_def)
  qed
  have am: "atMostOneLeader h' c'"
    unfolding atMostOneLeader_def using role by (auto simp: c')
  have "masterValid h' c'"
    unfolding masterValid_def addr using mem role by (auto simp: c')
  with wf' am show ?thesis by (simp add: tableInv_def)
qed

lemma reachable_inv: "reachable h c \<Longrightarrow> tableInv h c"
proof (induction rule: reachable.induct)
  case (new h)
  show ?case by (rule inv_new)
next
  case (add h c n)
  then show ?case by (intro inv_add)
next
  case (remove h c addr)
  then show ?case by (simp add: inv_remove)
next
  case (alive h c n b)
  then show ?case by (intro inv_alive)
next
  case (elect h c h' c')
  then show ?case using inv_elect by blast
next
  case (evict h c h' c')
  then show ?case using inv_evict by blast
next
  case (check h c h' c' changed)
  then show ?case using inv_check by blast
next
  case (setMasterNil h c h' c')
  then show ?case using inv_setMasterNil by blast
next
  case (setMaster h c m h' c')
  then show ?case using inv_setMaster by blast
qed


text \<open>
  C4, as stated for every sequence of the seven operations, fails. Right after the
  three nodes are added, all alive, no node is leader. After an election, an outage
  of every node and a second election, the master pointer is cleared while \<open>a:1\<close>
  keeps the master role; \<open>SetMaster\<close> of \<open>b:2\<close> then leaves two nodes of the table
  with the master role, and \<open>SetMaster\<close> of a node that is not in the table leaves
  the master pointer outside the table. \<open>AddNode\<close> of a new node at the address of
  the master replaces the master's entry, so that the master pointer is no node of
  the table. And two nodes created with the master role are both leaders once they
  are added.
\<close>

theorem leader_invariant_counterexample:
  "AddNode threeNodes (AddNode threeNodes (AddNode threeNodes NewCluster 2) 0) 1 = threeTable
   \<and> IsAlive (threeNodes 0) \<and> Role (threeNodes 0) = RoleSlave
   \<and> Role (threeNodes 1) = RoleSlave \<and> Role (threeNodes 2) = RoleSlave
   \<and> nodes (snd afterSetMaster) = [(''c:3'', 2), (''a:1'', 0), (''b:2'', 1)]
   \<and> master (snd afterOutage) = None
   \<and> Role (fst afterSetMaster 0) = RoleMaster \<and> Role (fst afterSetMaster 1) = RoleMaster
   \<and> master (snd afterElection) = Some 0
   \<and> AddNode ((fst afterElection)(3 := NewNode ''a:1'' RoleSlave)) (snd afterElection) 3
       = \<lparr>nodes = [(''c:3'', 2), (''a:1'', 3), (''b:2'', 1)], master = Some 0\<rparr>
   \<and> AddNode (emptyStore(0 := NewNode ''a:1'' RoleMaster, 1 := NewNode ''b:2'' RoleMaster))
         (AddNode (emptyStore(0 := NewNode ''a:1'' RoleMaster, 1 := NewNode ''b:2'' RoleMaster))
            NewCluster 0) 1
       = \<lparr>nodes = [(''a:1'', 0), (''b:2'', 1)], master = None\<rparr>
   \<and> master (snd (SetMaster threeNodes threeTable (Some 7))) = Some 7
   \<and> nodes (snd (SetMaster threeNodes threeTable (Some 7))) = [(''c:3'', 2), (''a:1'', 0), (''b:2'', 1)]"
proof -
  have "AddNode threeNodes (AddNode threeNodes (AddNode threeNodes NewCluster 2) 0) 1 = threeTable"
    by (rule threeTable_built)
  moreover have "IsAlive (threeNodes 0)" "Role (threeNodes 0) = RoleSlave"
    "Role (threeNodes 1) = RoleSlave" "Role (threeNodes 2) = RoleSlave"
    by (simp_all add: threeNodes_def NewNode_def)
  moreover have "nodes (snd afterSetMaster) = [(''c:3'', 2), (''a:1'', 0), (''b:2'', 1)]"
    by code_simp
  moreover have "master (snd afterOutage) = None"
    by code_simp
  moreover have "Role (fst afterSetMaster 0) = RoleMaster" "Role (fst afterSetMaster 1) = RoleMaster"
    by code_simp+
  moreover have "master (snd afterElection) = Some 0"
    by code_simp
  moreover have "AddNode ((fst afterElection)(3 := NewNode ''a:1'' RoleSlave)) (snd afterElection) 3
       = \<lparr>nodes = [(''c:3'', 2), (''a:1'', 3), (''b:2'', 1)], master = Some 0\<rparr>"
    by code_simp
  moreover have "AddNode (emptyStore(0 := NewNode ''a:1'' RoleMaster, 1 := NewNode ''b:2'' RoleMaster))
         (AddNode (emptyStore(0 := NewNode ''a:1'' RoleMaster, 1 := NewNode ''b:2'' RoleMaster))
            NewCluster 0) 1
       = \<lparr>nodes = [(''a:1'', 0), (''b:2'', 1)], master = None\<rparr>"
    by (simp add: AddNode_def NewCluster_def NewNode_def)
  moreover have "master (snd (SetMaster threeNodes threeTable (Some 7))) = Some 7"
    "nodes (snd (SetMaster threeNodes threeTable (Some 7))) = [(''c:3'', 2), (''a:1'', 0), (''b:2'', 1)]"
    by code_simp+
  ultimately show ?thesis by blast
qed

text \<open>
  C4, amended. In every state reachable in the sense of \<open>reachable\<close> (every sequence
  of the seven operations in which \<open>AddNode\<close> does not replace the entry of the
  current master by another node nor add a second node with the master role, and
  \<open>SetMaster\<close> is given a node of the table while no third node has the master
  role) at most one node of the table has the master role, and the master pointer,
  when it is set, is a node of the table with the master role. That exactly one node
  is leader holds right after an election: when some node is alive and the live nodes
  have non-empty addresses, \<open>ElectMaster\<close> and \<open>CheckAndElect\<close> leave the master
  pointer set and its node the only one of the table with the master role.
\<close>

theorem leader_invariant:
  assumes "reachable h c"
  shows "atMostOneLeader h c \<and> masterValid h c
       \<and> (\<forall>h' c' changed.
             (ElectMaster h c = (h', c') \<or> CheckAndElect h c = (h', c', changed))
             \<and> (\<exists>(a, p)\<in>set (nodes c). IsAlive (h p))
             \<and> (\<forall>(a, p)\<in>set (nodes c). IsAlive (h p) \<longrightarrow> a \<noteq> [])
             \<longrightarrow> (\<exists>m. master c' = Some m \<and> (Addr (h' m), m) \<in> set (nodes c')
                      \<and> (\<forall>(a, p)\<in>set (nodes c'). Role (h' p) = RoleMaster \<longleftrightarrow> p = m)))"
proof -
  have inv: "tableInv h c"
    using assms by (rule reachable_inv)
  then have wf: "tableWf h c" and am: "atMostOneLeader h c" and mv: "masterValid h c"
    by (simp_all add: tableInv_def)
  have "\<exists>m. master c' = Some m \<and> (Addr (h' m), m) \<in> set (nodes c')
              \<and> (\<forall>(a, p)\<in>set (nodes c'). Role (h' p) = RoleMaster \<longleftrightarrow> p = m)"
    if step: "ElectMaster h c = (h', c') \<or> CheckAndElect h c = (h', c', changed)"
      and al: "\<exists>(a, p)\<in>set (nodes c). IsAlive (h p)"
      and ne: "\<forall>(a, p)\<in>set (nodes c). IsAlive (h p) \<longrightarrow> a \<noteq> []"
    for h' c' changed
  proof -
    from al obtain a0 p0 where a0: "(a0, p0) \<in> set (nodes c)" "IsAlive (h p0)" by auto
    have inv': "tableInv h' c'"
      using step inv inv_elect inv_check by blast
    have "\<exists>m. leaderIs h' c' m"
    proof (rule disjE[OF step])
      assume e: "ElectMaster h c = (h', c')"
      from ElectMaster_leader[OF wf a0 ne] show ?thesis by (auto simp: e)
    next
      assume e: "CheckAndElect h c = (h', c', changed)"
      from CheckAndElect_leader[OF wf a0 ne mv] show ?thesis by (auto simp: e)
    qed
    then obtain m where m: "master c' = Some m" "(Addr (h' m), m) \<in> set (nodes c')"
        "Role (h' m) = RoleMaster"
      by (auto simp: leaderIs_def)
    have "Role (h' p) = RoleMaster \<longleftrightarrow> p = m" if "(a, p) \<in> set (nodes c')" for a p
      using inv' m that unfolding tableInv_def atMostOneLeader_def by blast
    with m show ?thesis by blast
  qed
  with am mv show ?thesis by blast
qed


lemma fourTable_built:
  "AddNode fourNodes (AddNode fourNodes (AddNode fourNodes NewCluster 2) 0) 1 = threeTable"
  by (simp add: AddNode_def NewCluster_def fourNodes_def threeNodes_def threeTable_def NewNode_def)

lemma rejoined_reachable: "reachable (fst rejoined) (snd rejoined)"
proof -
  have 1: "reachable fourNodes (AddNode fourNodes NewCluster 2)"
    by (rule reachable.add[OF reachable.new])
       (simp_all add: NewCluster_def fourNodes_def threeNodes_def NewNode_def)
  have 2: "reachable fourNodes (AddNode fourNodes (AddNode fourNodes NewCluster 2) 0)"
    by (rule reachable.add[OF 1])
       (simp_all add: AddNode_def NewCluster_def fourNodes_def threeNodes_def NewNode_def)
  have "reachable fourNodes (AddNode fourNodes (AddNode fourNodes (AddNode fourNodes NewCluster 2) 0) 1)"
    by (rule reachable.add[OF 2])
       (simp_all add: AddNode_def NewCluster_def fourNodes_def threeNodes_def NewNode_def)
  then have 3: "reachable fourNodes threeTable"
    unfolding fourTable_built .
  have 4: "reachable (fst (ElectMaster fourNodes threeTable)) (snd (ElectMaster fourNodes threeTable))"
    by (rule reachable.elect[OF 3]) simp
  have m: "master (snd (ElectMaster fourNodes threeTable)) = Some 0"
    by code_simp
  have a: "Addr (fst (ElectMaster fourNodes threeTable) 0) = ''a:1''"
    "Addr (fst (ElectMaster fourNodes threeTable) 3) = ''b:2''"
    "Role (fst (ElectMaster fourNodes threeTable) 3) = RoleSlave"
    by code_simp+
  have "reachable (fst (ElectMaster fourNodes threeTable))
          (AddNode (fst (ElectMaster fourNodes threeTable)) (snd (ElectMaster fourNodes threeTable)) 3)"
    by (rule reachable.add[OF 4]) (auto simp: m a)
  then show ?thesis
    by (simp add: rejoined_def)
qed

lemma rejoined_nodes: "nodes (snd rejoined) = [(''c:3'', 2), (''a:1'', 0), (''b:2'', 3)]"
  "master (snd rejoined) = Some 0"
  by code_simp+

lemma threeTable_reachable: "reachable threeNodes threeTable"
proof -
  have 1: "reachable threeNodes (AddNode threeNodes NewCluster 2)"
    by (rule reachable.add[OF reachable.new]) (simp_all add: NewCluster_def threeNodes_def NewNode_def)
  have 2: "reachable threeNodes (AddNode threeNodes (AddNode threeNodes NewCluster 2) 0)"
    by (rule reachable.add[OF 1]) (simp_all add: AddNode_def NewCluster_def threeNodes_def NewNode_def)
  have "reachable threeNodes (AddNode threeNodes (AddNode threeNodes (AddNode threeNodes NewCluster 2) 0) 1)"
    by (rule reachable.add[OF 2]) (simp_all add: AddNode_def NewCluster_def threeNodes_def NewNode_def)
  then show ?thesis unfolding threeTable_built .
qed

theorem leader_invariant_witness:
  "reachable threeNodes threeTable
   \<and> atMostOneLeader threeNodes threeTable \<and> masterValid threeNodes threeTable
   \<and> (\<exists>(a, p)\<in>set (nodes threeTable). IsAlive (threeNodes p))
   \<and> (\<exists>m. master (snd (ElectMaster threeNodes threeTable)) = Some m
          \<and> (\<forall>(a, p)\<in>set (nodes (snd (ElectMaster threeNodes threeTable))).
                Role (fst (ElectMaster threeNodes threeTable) p) = RoleMaster \<longleftrightarrow> p = m))
   \<and> (\<exists>m. master (fst (snd (CheckAndElect threeNodes threeTable))) = Some m
          \<and> (\<forall>(a, p)\<in>set (nodes (fst (snd (CheckAndElect threeNodes threeTable)))).
                Role (fst (CheckAndElect threeNodes threeTable) p) = RoleMaster \<longleftrightarrow> p = m))
   \<and> reachable (fst rejoined) (snd rejoined)
   \<and> nodes (snd rejoined) = [(''c:3'', 2), (''a:1'', 0), (''b:2'', 3)]
   \<and> master (snd rejoined) = Some 0
   \<and> atMostOneLeader (fst rejoined) (snd rejoined) \<and> masterValid (fst rejoined) (snd rejoined)"
proof -
  have ne: "\<forall>(a, p)\<in>set (nodes threeTable). IsAlive (threeNodes p) \<longrightarrow> a \<noteq> []"
    by (simp add: threeTable_def)
  have al: "\<exists>(a, p)\<in>set (nodes threeTable). IsAlive (threeNodes p)"
    by (simp add: threeTable_def threeNodes_def NewNode_def)
  have e: "ElectMaster threeNodes threeTable
            = (fst (ElectMaster threeNodes threeTable), snd (ElectMaster threeNodes threeTable))"
    by simp
  have k: "CheckAndElect threeNodes threeTable
            = (fst (CheckAndElect threeNodes threeTable), fst (snd (CheckAndElect threeNodes threeTable)),
               snd (snd (CheckAndElect threeNodes threeTable)))"
    by simp
  note inst = leader_invariant [OF threeTable_reachable]
  from inst have "atMostOneLeader threeNodes threeTable" "masterValid threeNodes threeTable"
    by blast+
  moreover from inst e al ne
  have "\<exists>m. master (snd (ElectMaster threeNodes threeTable)) = Some m
          \<and> (\<forall>(a, p)\<in>set (nodes (snd (ElectMaster threeNodes threeTable))).
                Role (fst (ElectMaster threeNodes threeTable) p) = RoleMaster \<longleftrightarrow> p = m)"
    by blast
  moreover from inst k al ne
  have "\<exists>m. master (fst (snd (CheckAndElect threeNodes threeTable))) = Some m
          \<and> (\<forall>(a, p)\<in>set (nodes (fst (snd (CheckAndElect threeNodes threeTable)))).
                Role (fst (CheckAndElect threeNodes threeTable) p) = RoleMaster \<longleftrightarrow> p = m)"
    by blast
  moreover from leader_invariant [OF rejoined_reachable]
  have "atMostOneLeader (fst rejoined) (snd rejoined)" "masterValid (fst rejoined) (snd rejoined)"
    by blast+
  ultimately show ?thesis
    using threeTable_reachable al rejoined_reachable rejoined_nodes by blast
qed


section \<open>The coordinator's protocol\<close>

lemma collectPrepare_eq:
  "collectPrepare outcome rs =
     outcome\<lparr>preparedRemotes := preparedRemotes outcome @ map prr_Addr (filter prr_Success rs),
             failedNodes := failedNodes outcome @ map prr_Addr (filter (\<lambda>r. \<not> prr_Success r) rs)\<rparr>"
  by (induction rs arbitrary: outcome) auto

lemma collectCommit_eq: "collectCommit b rs = (b \<and> list_all cmr_Success rs)"
  by (induction rs arbitrary: b) auto

lemma ensureSchema_Addr: "ensureSchema env n = (n1, calls, err) \<Longrightarrow> Addr n1 = Addr n"
  by (auto simp: ensureSchema_def Let_def split: if_splits prod.splits)

lemma Prepare_Addr:
  assumes "Prepare jc env n txID pl = (n', calls, ready, err)"
  shows "Addr n' = Addr n"
proof -
  obtain n1 c0 serr where es: "ensureSchema env n = (n1, c0, serr)"
    by (cases "ensureSchema env n") auto
  from ensureSchema_Addr[OF es] assms es show ?thesis
    by (auto simp: Prepare_def Let_def split: if_splits option.splits sum.splits prod.splits)
qed

lemma preparePhase_results:
  "preparePhase env h ps =
     (map (\<lambda>p. RemotePrepare (Addr (h p))) ps,
      map (\<lambda>p. \<lparr>prr_Addr = Addr (h p), prr_Success = remoteReady env (Addr (h p)),
                 prr_Response = fst (clientPrepare env (Addr (h p))),
                 prr_Error = snd (clientPrepare env (Addr (h p)))\<rparr>) ps)"
  by (simp add: preparePhase_def remoteReady_def split_def Let_def)

lemma filter_ready_addrs:
  "map prr_Addr (filter prr_Success
     (map (\<lambda>p. \<lparr>prr_Addr = f p, prr_Success = g (f p), prr_Response = r p, prr_Error = e p\<rparr>) ps))
   = filter g (map f ps)"
  by (induction ps) auto

lemma filter_failed_addrs:
  "map prr_Addr (filter (\<lambda>r. \<not> prr_Success r)
     (map (\<lambda>p. \<lparr>prr_Addr = f p, prr_Success = g (f p), prr_Response = r p, prr_Error = e p\<rparr>) ps))
   = filter (\<lambda>a. \<not> g a) (map f ps)"
  by (induction ps) auto


lemma commitPhase_results:
  "fst (commitPhase env addrs) = map RemoteCommit addrs
   \<and> list_all cmr_Success (snd (commitPhase env addrs)) = list_all (remoteCommitted env) addrs"
  by (induction addrs)
     (auto simp: commitPhase_def remoteCommitted_def split_def Let_def split: option.splits)

lemma abortPhase_calls: "fst (abortPhase env addrs) = map RemoteAbort addrs"
  by (simp add: abortPhase_def)

lemma prepareTransaction_unfold:
  "prepareTransaction env h co txID pl (localNode co \<noteq> None) ps =
     (case localNode co of
        None \<Rightarrow>
          (h, fst (preparePhase env h ps),
           collectPrepare \<lparr>includeLocal = False, localPrepared = False, preparedRemotes = [],
                            failedNodes = []\<rparr> (snd (preparePhase env h ps)))
      | Some l \<Rightarrow>
          (h(l := fst (Prepare (codec env) (localDB env) (h l) txID pl)),
           LocalPrepare (fst (snd (Prepare (codec env) (localDB env) (h l) txID pl)))
             # fst (preparePhase env (h(l := fst (Prepare (codec env) (localDB env) (h l) txID pl))) ps),
           collectPrepare
             (if localReady env h l txID pl then
                \<lparr>includeLocal = True, localPrepared = True, preparedRemotes = [], failedNodes = []\<rparr>
              else
                \<lparr>includeLocal = True, localPrepared = False, preparedRemotes = [],
                 failedNodes = [Addr (fst (Prepare (codec env) (localDB env) (h l) txID pl)) @ '' (local)'']\<rparr>)
             (snd (preparePhase env (h(l := fst (Prepare (codec env) (localDB env) (h l) txID pl))) ps))))"
  by (simp add: prepareTransaction_def localReady_def split_def Let_def split: option.splits)

lemma preparePhase_local:
  "preparePhase env (h(l := fst (Prepare jc dbe (h l) txID pl))) ps = preparePhase env h ps"
proof -
  have "Addr (fst (Prepare jc dbe (h l) txID pl)) = Addr (h l)"
    using Prepare_Addr[of jc dbe "h l" txID pl] by (metis prod.collapse)
  then have "Addr ((h(l := fst (Prepare jc dbe (h l) txID pl))) p) = Addr (h p)" for p
    by simp
  then show ?thesis
    by (simp add: preparePhase_def)
qed

lemma prepareTransaction_eq:
  assumes "prepareTransaction env h co txID pl (localNode co \<noteq> None) ps = (h1, calls1, outcome)"
  shows "h1 = (case localNode co of None \<Rightarrow> h
               | Some l \<Rightarrow> h(l := fst (Prepare (codec env) (localDB env) (h l) txID pl)))"
    and "calls1 = (case localNode co of None \<Rightarrow> []
               | Some l \<Rightarrow> [LocalPrepare (fst (snd (Prepare (codec env) (localDB env) (h l) txID pl)))])
             @ map (\<lambda>p. RemotePrepare (Addr (h p))) ps"
    and "includeLocal outcome = (localNode co \<noteq> None)"
    and "localPrepared outcome = (case localNode co of None \<Rightarrow> False | Some l \<Rightarrow> localReady env h l txID pl)"
    and "preparedRemotes outcome = filter (remoteReady env) (map (\<lambda>p. Addr (h p)) ps)"
    and "failedNodes outcome =
           (case localNode co of None \<Rightarrow> []
            | Some l \<Rightarrow> if localReady env h l txID pl then [] else [Addr (h l) @ '' (local)''])
           @ filter (\<lambda>a. \<not> remoteReady env a) (map (\<lambda>p. Addr (h p)) ps)"
proof -
  have addr: "Addr (fst (Prepare (codec env) (localDB env) (h l) txID pl)) = Addr (h l)" for l
    using Prepare_Addr[of "codec env" "localDB env" "h l" txID pl] by (metis prod.collapse)
  note pp = preparePhase_results
  note un = assms[unfolded prepareTransaction_unfold preparePhase_local]
  show "h1 = (case localNode co of None \<Rightarrow> h
               | Some l \<Rightarrow> h(l := fst (Prepare (codec env) (localDB env) (h l) txID pl)))"
    using un by (auto split: option.splits if_splits)
  show "calls1 = (case localNode co of None \<Rightarrow> []
               | Some l \<Rightarrow> [LocalPrepare (fst (snd (Prepare (codec env) (localDB env) (h l) txID pl)))])
             @ map (\<lambda>p. RemotePrepare (Addr (h p))) ps"
    using un by (auto simp: pp split: option.splits if_splits)
  show "includeLocal outcome = (localNode co \<noteq> None)"
    using un by (auto simp: collectPrepare_eq split: option.splits if_splits)
  show "localPrepared outcome = (case localNode co of None \<Rightarrow> False | Some l \<Rightarrow> localReady env h l txID pl)"
    using un by (auto simp: collectPrepare_eq split: option.splits if_splits)
  show "preparedRemotes outcome = filter (remoteReady env) (map (\<lambda>p. Addr (h p)) ps)"
    using un
    by (auto simp: collectPrepare_eq pp filter_ready_addrs[where g = "remoteReady env"]
        split: option.splits if_splits)
  show "failedNodes outcome =
           (case localNode co of None \<Rightarrow> []
            | Some l \<Rightarrow> if localReady env h l txID pl then [] else [Addr (h l) @ '' (local)''])
           @ filter (\<lambda>a. \<not> remoteReady env a) (map (\<lambda>p. Addr (h p)) ps)"
    using un
    by (auto simp: collectPrepare_eq pp addr filter_failed_addrs[where g = "remoteReady env"]
        split: option.splits if_splits)
qed


lemma abortTransaction_calls:
  "snd (abortTransaction env h1 co txID outcome addrs) =
     (case localNode co of
        None \<Rightarrow> []
      | Some l \<Rightarrow>
          if includeLocal outcome \<and> localPrepared outcome
          then [LocalAbort (fst (snd (Abort (localDB env) (h1 l) txID)))] else [])
     @ map RemoteAbort addrs"
  by (auto simp: abortTransaction_def split_def Let_def abortPhase_calls split: option.splits)

lemma commitTransaction_eq:
  "commitTransaction env h1 co txID outcome =
     (fst (commitTransaction env h1 co txID outcome),
      (case localNode co of
         None \<Rightarrow> []
       | Some l \<Rightarrow>
           if includeLocal outcome \<and> localPrepared outcome
           then [LocalCommit (fst (snd (Commit (localDB env) (h1 l) txID)))] else [])
      @ map RemoteCommit (preparedRemotes outcome),
      (case localNode co of
         None \<Rightarrow> True
       | Some l \<Rightarrow>
           includeLocal outcome \<and> localPrepared outcome \<longrightarrow>
           snd (snd (Commit (localDB env) (h1 l) txID)) = None)
      \<and> list_all (remoteCommitted env) (preparedRemotes outcome),
      length (preparedRemotes outcome)
        + (if includeLocal outcome \<and> localPrepared outcome then 1 else 0))"
  using commitPhase_results[of env "preparedRemotes outcome"]
  by (auto simp: commitTransaction_def split_def Let_def collectCommit_eq split: option.splits)

text \<open>
  C8, as stated, fails on the error text: with no participant the response carries
  the error \<open>No participants available\<close>, not \<open>no participants\<close>.
\<close>

theorem no_participants_counterexample:
  "Execute okEnv emptyStore \<lparr>cluster = NewCluster, localNode = None\<rparr> ''tx1'' (PAction insUser)
     = (emptyStore, [], \<lparr>TransactionID = ''tx1'', Success = False, Message = [],
                          Error = ''No participants available''\<rparr>)
   \<and> Error (snd (snd (Execute okEnv emptyStore \<lparr>cluster = NewCluster, localNode = None\<rparr>
                          ''tx1'' (PAction insUser)))) \<noteq> ''no participants''"
  by (simp add: Execute_def GetSlaveNodes_def NewCluster_def)

text \<open>
  C8, amended. When there is no live follower and no local node, \<open>Execute\<close> returns
  the response with the transaction id it drew, \<open>Success = false\<close> and the error
  \<open>No participants available\<close>; it issues no Prepare, Commit or Abort and leaves
  every node as it was.
\<close>

theorem no_participants:
  assumes "GetSlaveNodes h (cluster co) = []" and "localNode co = None"
  shows "Execute env h co txID pl =
           (h, [], \<lparr>TransactionID = txID, Success = False, Message = [],
                    Error = ''No participants available''\<rparr>)"
  using assms by (simp add: Execute_def)

theorem no_participants_witness:
  "GetSlaveNodes (emptyStore(0 := NewNode ''localhost:8080'' RoleMaster))
     (cluster \<lparr>cluster = \<lparr>nodes = [(''localhost:8080'', 0)], master = Some 0\<rparr>, localNode = None\<rparr>) = []
   \<and> Execute okEnv (emptyStore(0 := NewNode ''localhost:8080'' RoleMaster))
        \<lparr>cluster = \<lparr>nodes = [(''localhost:8080'', 0)], master = Some 0\<rparr>, localNode = None\<rparr>
        ''tx1'' (PAction insUser)
     = (emptyStore(0 := NewNode ''localhost:8080'' RoleMaster), [],
        \<lparr>TransactionID = ''tx1'', Success = False, Message = [],
         Error = ''No participants available''\<rparr>)"
proof -
  let ?h = "emptyStore(0 := NewNode ''localhost:8080'' RoleMaster)"
  let ?co = "\<lparr>cluster = \<lparr>nodes = [(''localhost:8080'', 0)], master = Some 0\<rparr>, localNode = None\<rparr>"
  have a: "GetSlaveNodes ?h (cluster ?co) = []"
    by (simp add: GetSlaveNodes_def NewNode_def)
  have b: "localNode ?co = None"
    by simp
  from no_participants [OF a b, of okEnv "''tx1''" "PAction insUser"] a
  show ?thesis by simp
qed

text \<open>
  C2, as stated, fails for the local participant: when the Prepare of the local node
  fails, the coordinator calls no Abort on it. Here the local node is the only
  participant, its Prepare begins a transaction and refuses the payload, and
  \<open>Execute\<close> issues no abort at all.
\<close>

theorem abort_after_failed_prepare_counterexample:
  "snd (Execute okEnv (emptyStore(0 := NewNodeWithDB ''m:0'' RoleMaster))
          \<lparr>cluster = NewCluster, localNode = Some 0\<rparr> ''tx1'' (PAction updNoWhere))
     = ([LocalPrepare [QueryTableExists, BeginTx, TxRollback 1]],
        \<lparr>TransactionID = ''tx1'', Success = False, Message = [],
         Error = ''Prepare failed for nodes: [m:0 (local)]''\<rparr>)"
  by code_simp

text \<open>
  C2, amended. When at least one Prepare fails, \<open>Execute\<close> sends an Abort to every
  remote participant that was sent a Prepare request, ready or not, and calls Abort on
  the local node exactly when the local Prepare had succeeded; it sends no Commit. The
  response has \<open>Success = false\<close> and its error lists the failed addresses: the local
  address with the suffix \<open>(local)\<close> when the local Prepare failed, then the addresses
  of the remote participants whose Prepare did not succeed.
\<close>

theorem abort_after_failed_prepare:
  assumes prep: "prepareTransaction env h co txID pl (localNode co \<noteq> None) (GetSlaveNodes h (cluster co))
                  = (h1, calls1, outcome)"
    and failed: "failedNodes outcome \<noteq> []"
  shows "(\<exists>h2 dbcalls.
           Execute env h co txID pl =
             (h2,
              calls1 @ (if localPrepared outcome then [LocalAbort dbcalls] else [])
                @ map RemoteAbort (map (\<lambda>p. Addr (h p)) (GetSlaveNodes h (cluster co))),
              \<lparr>TransactionID = txID, Success = False, Message = [],
               Error = ''Prepare failed for nodes: ['' @ join (failedNodes outcome) '' '' @ '']''\<rparr>))
       \<and> calls1 =
           (case localNode co of
              None \<Rightarrow> []
            | Some l \<Rightarrow> [LocalPrepare (fst (snd (Prepare (codec env) (localDB env) (h l) txID pl)))])
           @ map RemotePrepare (map (\<lambda>p. Addr (h p)) (GetSlaveNodes h (cluster co)))
       \<and> localPrepared outcome =
           (case localNode co of None \<Rightarrow> False | Some l \<Rightarrow> localReady env h l txID pl)
       \<and> failedNodes outcome =
           (case localNode co of
              None \<Rightarrow> []
            | Some l \<Rightarrow> if localReady env h l txID pl then [] else [Addr (h l) @ '' (local)''])
           @ filter (\<lambda>a. \<not> remoteReady env a) (map (\<lambda>p. Addr (h p)) (GetSlaveNodes h (cluster co)))"
proof -
  note eq = prepareTransaction_eq[OF prep]
  have some: "localNode co \<noteq> None \<or> GetSlaveNodes h (cluster co) \<noteq> []"
    using failed eq(6) by (auto split: option.splits)
  have inc: "includeLocal outcome \<and> localPrepared outcome \<longleftrightarrow> localPrepared outcome"
    using eq(3,4) by (auto split: option.splits)
  have lp: "localPrepared outcome \<Longrightarrow> localNode co \<noteq> None"
    using eq(4) by (auto split: option.splits)
  let ?ab = "abortTransaction env h1 co txID outcome (map (\<lambda>p. Addr (h p)) (GetSlaveNodes h (cluster co)))"
  have ex: "Execute env h co txID pl =
      (fst ?ab, calls1 @ snd ?ab,
       \<lparr>TransactionID = txID, Success = False, Message = [],
        Error = ''Prepare failed for nodes: ['' @ join (failedNodes outcome) '' '' @ '']''\<rparr>)"
    using some failed prep by (auto simp: Execute_def Let_def split_def)
  have "\<exists>dbcalls. snd ?ab = (if localPrepared outcome then [LocalAbort dbcalls] else [])
                @ map RemoteAbort (map (\<lambda>p. Addr (h p)) (GetSlaveNodes h (cluster co)))"
    unfolding abortTransaction_calls inc using lp by (auto split: option.splits)
  with ex have "\<exists>h2 dbcalls.
           Execute env h co txID pl =
             (h2,
              calls1 @ (if localPrepared outcome then [LocalAbort dbcalls] else [])
                @ map RemoteAbort (map (\<lambda>p. Addr (h p)) (GetSlaveNodes h (cluster co))),
              \<lparr>TransactionID = txID, Success = False, Message = [],
               Error = ''Prepare failed for nodes: ['' @ join (failedNodes outcome) '' '' @ '']''\<rparr>)"
    by auto
  with eq(2,4,6) show ?thesis by (simp add: comp_def)
qed


theorem abort_after_failed_prepare_witness:
  "failedNodes (snd (snd (prepareTransaction timeoutEnv (fst afterElection) leaderCoordinator ''tx1''
       (PAction insUser) (localNode leaderCoordinator \<noteq> None)
       (GetSlaveNodes (fst afterElection) (cluster leaderCoordinator))))) = [''c:3'']
   \<and> (\<exists>h2. Execute timeoutEnv (fst afterElection) leaderCoordinator ''tx1'' (PAction insUser)
          = (h2,
             [LocalPrepare [], RemotePrepare ''c:3'', RemotePrepare ''b:2'',
              LocalAbort [], RemoteAbort ''c:3'', RemoteAbort ''b:2''],
             \<lparr>TransactionID = ''tx1'', Success = False, Message = [],
              Error = ''Prepare failed for nodes: [c:3]''\<rparr>))"
proof -
  let ?h = "fst afterElection"
  let ?pt = "prepareTransaction timeoutEnv ?h leaderCoordinator ''tx1''
       (PAction insUser) (localNode leaderCoordinator \<noteq> None)
       (GetSlaveNodes ?h (cluster leaderCoordinator))"
  have prep: "?pt = (fst ?pt, fst (snd ?pt), snd (snd ?pt))"
    by simp
  have fo: "failedNodes (snd (snd ?pt)) = [''c:3'']"
    by code_simp
  then have failed: "failedNodes (snd (snd ?pt)) \<noteq> []"
    by simp
  have ev: "snd (Execute timeoutEnv ?h leaderCoordinator ''tx1'' (PAction insUser))
     = ([LocalPrepare [], RemotePrepare ''c:3'', RemotePrepare ''b:2'',
         LocalAbort [], RemoteAbort ''c:3'', RemoteAbort ''b:2''],
        \<lparr>TransactionID = ''tx1'', Success = False, Message = [],
         Error = ''Prepare failed for nodes: [c:3]''\<rparr>)"
    by code_simp
  from abort_after_failed_prepare [OF prep failed]
  obtain h2 dbcalls where
    "Execute timeoutEnv ?h leaderCoordinator ''tx1'' (PAction insUser) =
       (h2,
        fst (snd ?pt) @ (if localPrepared (snd (snd ?pt)) then [LocalAbort dbcalls] else [])
          @ map RemoteAbort (map (\<lambda>p. Addr (?h p)) (GetSlaveNodes ?h (cluster leaderCoordinator))),
        \<lparr>TransactionID = ''tx1'', Success = False, Message = [],
         Error = ''Prepare failed for nodes: ['' @ join (failedNodes (snd (snd ?pt))) '' '' @ '']''\<rparr>)"
    by blast
  with ev have "\<exists>h2. Execute timeoutEnv ?h leaderCoordinator ''tx1'' (PAction insUser)
          = (h2,
             [LocalPrepare [], RemotePrepare ''c:3'', RemotePrepare ''b:2'',
              LocalAbort [], RemoteAbort ''c:3'', RemoteAbort ''b:2''],
             \<lparr>TransactionID = ''tx1'', Success = False, Message = [],
              Error = ''Prepare failed for nodes: [c:3]''\<rparr>)"
    by (metis snd_conv)
  with fo show ?thesis by blast
qed

lemma Commit_rollback:
  "list_ex isRollback (fst (snd (Commit env n txID))) \<longleftrightarrow>
     pendingTx n txID \<noteq> None \<and> setCommittedErr env \<noteq> None \<and> \<not> isAlreadyFinishedErr (setCommittedErr env)"
  by (auto simp: Commit_def Let_def isRollback_def split: option.splits)

lemma Prepare_ready_calls:
  assumes "Prepare jc env n txID pl = (n', calls, True, None)"
  shows "\<not> list_ex isRollback calls \<and> (db n \<longrightarrow> pendingTx n' txID \<noteq> None)"
proof (cases "db n")
  case False
  with assms show ?thesis by (auto simp: Prepare_def split: if_splits)
next
  case True
  obtain n1 c0 serr where es: "ensureSchema env n = (n1, c0, serr)"
    by (cases "ensureSchema env n") auto
  have c0: "\<not> list_ex isRollback c0"
    using ensureSchema_pending[OF es] by (auto simp: list_ex_iff isRollback_def)
  from assms True es c0 show ?thesis
    by (auto simp: Prepare_def Let_def applySQLAction_def isRollback_def
        split: if_splits option.splits sum.splits prod.splits)
qed

lemma localReady_no_rollback:
  assumes "localReady env h l txID pl"
  shows "\<not> list_ex isRollback (fst (snd (Prepare (codec env) (localDB env) (h l) txID pl)))"
proof -
  obtain n' calls ready err where p: "Prepare (codec env) (localDB env) (h l) txID pl = (n', calls, ready, err)"
    by (cases "Prepare (codec env) (localDB env) (h l) txID pl") auto
  with assms have "ready" "err = None" by (simp_all add: localReady_def)
  with p Prepare_ready_calls[of "codec env" "localDB env" "h l" txID pl n' calls] show ?thesis by simp
qed

lemma localReady_pendingTx:
  assumes "localReady env h l txID pl"
  shows "db (h l) \<longrightarrow> pendingTx (fst (Prepare (codec env) (localDB env) (h l) txID pl)) txID \<noteq> None"
proof -
  obtain n' calls ready err where p: "Prepare (codec env) (localDB env) (h l) txID pl = (n', calls, ready, err)"
    by (cases "Prepare (codec env) (localDB env) (h l) txID pl") auto
  with assms have "ready" "err = None" by (simp_all add: localReady_def)
  with p Prepare_ready_calls[of "codec env" "localDB env" "h l" txID pl n' calls] show ?thesis by simp
qed

text \<open>
  C1, as stated, fails on \<open>no rollback\<close>. Here every Prepare succeeded; the Commit
  of the local node fails on the status update of the audit row and rolls back the
  database transaction it had prepared, and the coordinator still sends the Commit to
  the follower and answers \<open>Some commits failed\<close>.
\<close>

theorem commit_no_rollback_counterexample:
  "snd (Execute auditFailEnv dbLeaderNodes dbLeaderCoordinator ''tx1'' (PAction insUser))
     = ([LocalPrepare [QueryTableExists, BeginTx,
                       TxExec 1 ''INSERT INTO \"users\" (\"id\",\"name\") VALUES ($1,$2)''
                         [JNumber 1, JString ''Alice''],
                       TxInsertPrepared 1 ''tx1'' ''{}''],
         RemotePrepare ''b:2'',
         LocalCommit [TxSetCommitted 1 ''tx1'', TxRollback 1],
         RemoteCommit ''b:2''],
        \<lparr>TransactionID = ''tx1'', Success = False, Message = [], Error = ''Some commits failed''\<rparr>)"
  by code_simp

text \<open>
  C1, amended. When every participant prepared successfully (the prepare phase ran
  and recorded no failed node), \<open>Execute\<close> calls Commit on the local node, if there is
  one, and sends a Commit to every remote participant; the response has
  \<open>Success = true\<close> exactly when the local Commit returned no error and every remote
  Commit reported success, and then carries the number of participants in its
  message; otherwise it has \<open>Success = false\<close> and the error \<open>Some commits failed\<close>. In
  either case the coordinator issues no abort, locally or remotely. A database
  transaction is rolled back in one case only: by the Commit of the local node, on
  the transaction it holds for the id (it holds one when it has a database), when
  the status update of the audit row fails with an error other than
  \<open>already finished\<close>.
\<close>

theorem commit_after_prepare:
  assumes prep: "prepareTransaction env h co txID pl (localNode co \<noteq> None) (GetSlaveNodes h (cluster co))
                  = (h1, calls1, outcome)"
    and ready: "failedNodes outcome = []"
    and some: "localNode co \<noteq> None \<or> GetSlaveNodes h (cluster co) \<noteq> []"
  shows "\<exists>h2 calls2 resp.
           Execute env h co txID pl = (h2, calls1 @ calls2, resp)
           \<and> TransactionID resp = txID
           \<and> calls2 =
               (case localNode co of
                  None \<Rightarrow> []
                | Some l \<Rightarrow> [LocalCommit (fst (snd (Commit (localDB env) (h1 l) txID)))])
               @ map RemoteCommit (map (\<lambda>p. Addr (h p)) (GetSlaveNodes h (cluster co)))
           \<and> (Success resp \<longleftrightarrow>
                (case localNode co of
                   None \<Rightarrow> True
                 | Some l \<Rightarrow> snd (snd (Commit (localDB env) (h1 l) txID)) = None)
                \<and> list_all (remoteCommitted env) (map (\<lambda>p. Addr (h p)) (GetSlaveNodes h (cluster co))))
           \<and> (if Success resp
                then Error resp = [] \<and>
                     Message resp = ''Transaction committed on ''
                       @ itoa (length (GetSlaveNodes h (cluster co)) + (if localNode co = None then 0 else 1))
                       @ '' nodes''
                else Error resp = ''Some commits failed'' \<and> Message resp = [])
           \<and> list_all (\<lambda>c. \<not> isAbort c) (calls1 @ calls2)
           \<and> (list_ex rollsBack (calls1 @ calls2) \<longleftrightarrow>
                (case localNode co of
                   None \<Rightarrow> False
                 | Some l \<Rightarrow> pendingTx (h1 l) txID \<noteq> None \<and> setCommittedErr (localDB env) \<noteq> None
                     \<and> \<not> isAlreadyFinishedErr (setCommittedErr (localDB env))))
           \<and> (case localNode co of None \<Rightarrow> True | Some l \<Rightarrow> db (h l) \<longrightarrow> pendingTx (h1 l) txID \<noteq> None)"
proof -
  note eq = prepareTransaction_eq[OF prep]
  let ?addrs = "map (\<lambda>p. Addr (h p)) (GetSlaveNodes h (cluster co))"
  have nofail: "filter (\<lambda>a. \<not> remoteReady env a) ?addrs = []"
    and loc: "case localNode co of None \<Rightarrow> True | Some l \<Rightarrow> localReady env h l txID pl"
    using ready eq(6) by (auto split: option.splits if_splits)
  have "filter (remoteReady env) ?addrs = ?addrs"
    using nofail by (simp add: filter_empty_conv filter_id_conv)
  then have pr: "preparedRemotes outcome = ?addrs"
    using eq(5) by simp
  have lp: "includeLocal outcome \<and> localPrepared outcome \<longleftrightarrow> localNode co \<noteq> None"
    using eq(3,4) loc by (auto split: option.splits)
  let ?ct = "commitTransaction env h1 co txID outcome"
  let ?calls2 = "(case localNode co of
                  None \<Rightarrow> []
                | Some l \<Rightarrow> [LocalCommit (fst (snd (Commit (localDB env) (h1 l) txID)))])
               @ map RemoteCommit ?addrs"
  let ?ok = "(case localNode co of
                   None \<Rightarrow> True
                 | Some l \<Rightarrow> snd (snd (Commit (localDB env) (h1 l) txID)) = None)
                \<and> list_all (remoteCommitted env) ?addrs"
  let ?total = "length (GetSlaveNodes h (cluster co)) + (if localNode co = None then 0 else 1)"
  have ct: "?ct = (fst ?ct, ?calls2, ?ok, ?total)"
    by (subst commitTransaction_eq) (auto simp: lp pr split: option.splits)
  define resp where "resp =
     (if ?ok then \<lparr>TransactionID = txID, Success = True,
                   Message = ''Transaction committed on '' @ itoa ?total @ '' nodes'', Error = []\<rparr>
      else \<lparr>TransactionID = txID, Success = False, Message = [], Error = ''Some commits failed''\<rparr>)"
  have ex: "Execute env h co txID pl =
     (case ?ct of (h2, calls2, commitSuccess, totalCommitted) \<Rightarrow>
        if commitSuccess then
          (h2, calls1 @ calls2,
           \<lparr>TransactionID = txID, Success = True,
            Message = ''Transaction committed on '' @ itoa totalCommitted @ '' nodes'', Error = []\<rparr>)
        else
          (h2, calls1 @ calls2,
           \<lparr>TransactionID = txID, Success = False, Message = [], Error = ''Some commits failed''\<rparr>))"
    using some ready prep by (auto simp: Execute_def Let_def)
  have ex: "Execute env h co txID pl = (fst ?ct, calls1 @ ?calls2, resp)"
    unfolding ex by (subst ct) (simp add: resp_def)
  have na1: "list_all (\<lambda>c. \<not> isAbort c) calls1"
    unfolding eq(2) by (auto simp: list_all_iff isAbort_def split: option.splits)
  have na2: "list_all (\<lambda>c. \<not> isAbort c) ?calls2"
    by (auto simp: list_all_iff isAbort_def split: option.splits)
  have rb1: "\<not> list_ex rollsBack calls1"
  proof (cases "localNode co")
    case None
    then show ?thesis
      unfolding eq(2) by (simp add: list_ex_iff rollsBack_def dbCalls_def)
  next
    case (Some l)
    with loc have "localReady env h l txID pl" by simp
    from localReady_no_rollback[OF this] Some show ?thesis
      unfolding eq(2) by (simp add: list_ex_iff rollsBack_def dbCalls_def)
  qed
  have rb2: "list_ex rollsBack ?calls2 \<longleftrightarrow>
                (case localNode co of
                   None \<Rightarrow> False
                 | Some l \<Rightarrow> pendingTx (h1 l) txID \<noteq> None \<and> setCommittedErr (localDB env) \<noteq> None
                     \<and> \<not> isAlreadyFinishedErr (setCommittedErr (localDB env)))"
    by (cases "localNode co") (auto simp: list_ex_iff rollsBack_def dbCalls_def Commit_rollback[unfolded list_ex_iff])
  have pend: "case localNode co of None \<Rightarrow> True | Some l \<Rightarrow> db (h l) \<longrightarrow> pendingTx (h1 l) txID \<noteq> None"
  proof (cases "localNode co")
    case None
    then show ?thesis by simp
  next
    case (Some l)
    with loc have "localReady env h l txID pl" by simp
    from localReady_pendingTx[OF this] Some eq(1) show ?thesis by simp
  qed
  show ?thesis
    apply (rule exI[of _ "fst ?ct"], rule exI[of _ ?calls2], rule exI[of _ resp])
    using ex na1 na2 rb1 rb2 pend by (simp add: resp_def)
qed


theorem commit_after_prepare_witness:
  "failedNodes (snd (snd (prepareTransaction okEnv (fst afterElection) leaderCoordinator ''tx1''
       (PAction insUser) (localNode leaderCoordinator \<noteq> None)
       (GetSlaveNodes (fst afterElection) (cluster leaderCoordinator))))) = []
   \<and> localNode leaderCoordinator \<noteq> None
   \<and> (\<exists>h2. Execute okEnv (fst afterElection) leaderCoordinator ''tx1'' (PAction insUser)
          = (h2,
             [LocalPrepare [], RemotePrepare ''c:3'', RemotePrepare ''b:2'',
              LocalCommit [], RemoteCommit ''c:3'', RemoteCommit ''b:2''],
             \<lparr>TransactionID = ''tx1'', Success = True,
              Message = ''Transaction committed on 3 nodes'', Error = []\<rparr>))
   \<and> failedNodes (snd (snd (prepareTransaction commitFailEnv (fst afterElection) leaderCoordinator ''tx1''
       (PAction insUser) (localNode leaderCoordinator \<noteq> None)
       (GetSlaveNodes (fst afterElection) (cluster leaderCoordinator))))) = []
   \<and> (\<exists>h2. Execute commitFailEnv (fst afterElection) leaderCoordinator ''tx1'' (PAction insUser)
          = (h2,
             [LocalPrepare [], RemotePrepare ''c:3'', RemotePrepare ''b:2'',
              LocalCommit [], RemoteCommit ''c:3'', RemoteCommit ''b:2''],
             \<lparr>TransactionID = ''tx1'', Success = False, Message = [],
              Error = ''Some commits failed''\<rparr>))
   \<and> failedNodes (snd (snd (prepareTransaction auditFailEnv dbLeaderNodes dbLeaderCoordinator ''tx1''
       (PAction insUser) (localNode dbLeaderCoordinator \<noteq> None)
       (GetSlaveNodes dbLeaderNodes (cluster dbLeaderCoordinator))))) = []
   \<and> db (dbLeaderNodes 0)
   \<and> (\<exists>h2 calls. Execute auditFailEnv dbLeaderNodes dbLeaderCoordinator ''tx1'' (PAction insUser)
          = (h2, calls,
             \<lparr>TransactionID = ''tx1'', Success = False, Message = [],
              Error = ''Some commits failed''\<rparr>)
          \<and> list_ex rollsBack calls \<and> list_all (\<lambda>c. \<not> isAbort c) calls)"
proof -
  let ?h = "fst afterElection"
  let ?pt = "\<lambda>env. prepareTransaction env ?h leaderCoordinator ''tx1''
       (PAction insUser) (localNode leaderCoordinator \<noteq> None)
       (GetSlaveNodes ?h (cluster leaderCoordinator))"
  have prep: "?pt env = (fst (?pt env), fst (snd (?pt env)), snd (snd (?pt env)))" for env
    by simp
  have r1: "failedNodes (snd (snd (?pt okEnv))) = []"
    by code_simp
  have r2: "failedNodes (snd (snd (?pt commitFailEnv))) = []"
    by code_simp
  have some: "localNode leaderCoordinator \<noteq> None
              \<or> GetSlaveNodes ?h (cluster leaderCoordinator) \<noteq> []"
    by (simp add: leaderCoordinator_def)
  have ev1: "snd (Execute okEnv ?h leaderCoordinator ''tx1'' (PAction insUser))
     = ([LocalPrepare [], RemotePrepare ''c:3'', RemotePrepare ''b:2'',
         LocalCommit [], RemoteCommit ''c:3'', RemoteCommit ''b:2''],
        \<lparr>TransactionID = ''tx1'', Success = True,
         Message = ''Transaction committed on 3 nodes'', Error = []\<rparr>)"
    by code_simp
  have ev2: "snd (Execute commitFailEnv ?h leaderCoordinator ''tx1'' (PAction insUser))
     = ([LocalPrepare [], RemotePrepare ''c:3'', RemotePrepare ''b:2'',
         LocalCommit [], RemoteCommit ''c:3'', RemoteCommit ''b:2''],
        \<lparr>TransactionID = ''tx1'', Success = False, Message = [],
         Error = ''Some commits failed''\<rparr>)"
    by code_simp
  from commit_after_prepare [OF prep r1 some]
  obtain h2 calls2 resp where
    "Execute okEnv ?h leaderCoordinator ''tx1'' (PAction insUser) = (h2, fst (snd (?pt okEnv)) @ calls2, resp)"
    by blast
  with ev1 have a: "\<exists>h2. Execute okEnv ?h leaderCoordinator ''tx1'' (PAction insUser)
          = (h2,
             [LocalPrepare [], RemotePrepare ''c:3'', RemotePrepare ''b:2'',
              LocalCommit [], RemoteCommit ''c:3'', RemoteCommit ''b:2''],
             \<lparr>TransactionID = ''tx1'', Success = True,
              Message = ''Transaction committed on 3 nodes'', Error = []\<rparr>)"
    by (metis snd_conv)
  from commit_after_prepare [OF prep r2 some]
  obtain h3 calls3 resp3 where
    "Execute commitFailEnv ?h leaderCoordinator ''tx1'' (PAction insUser)
       = (h3, fst (snd (?pt commitFailEnv)) @ calls3, resp3)"
    by blast
  with ev2 have b: "\<exists>h2. Execute commitFailEnv ?h leaderCoordinator ''tx1'' (PAction insUser)
          = (h2,
             [LocalPrepare [], RemotePrepare ''c:3'', RemotePrepare ''b:2'',
              LocalCommit [], RemoteCommit ''c:3'', RemoteCommit ''b:2''],
             \<lparr>TransactionID = ''tx1'', Success = False, Message = [],
              Error = ''Some commits failed''\<rparr>)"
    by (metis snd_conv)
  let ?pd = "prepareTransaction auditFailEnv dbLeaderNodes dbLeaderCoordinator ''tx1''
       (PAction insUser) (localNode dbLeaderCoordinator \<noteq> None)
       (GetSlaveNodes dbLeaderNodes (cluster dbLeaderCoordinator))"
  have prepd: "?pd = (fst ?pd, fst (snd ?pd), snd (snd ?pd))"
    by simp
  have r3: "failedNodes (snd (snd ?pd)) = []"
    by code_simp
  have somed: "localNode dbLeaderCoordinator \<noteq> None
              \<or> GetSlaveNodes dbLeaderNodes (cluster dbLeaderCoordinator) \<noteq> []"
    by (simp add: dbLeaderCoordinator_def)
  have dbl: "db (dbLeaderNodes 0)"
    by (simp add: dbLeaderNodes_def NewNodeWithDB_def)
  have loc: "localNode dbLeaderCoordinator = Some 0"
    by (simp add: dbLeaderCoordinator_def)
  have err: "setCommittedErr (localDB auditFailEnv) \<noteq> None"
    "\<not> isAlreadyFinishedErr (setCommittedErr (localDB auditFailEnv))"
    by code_simp+
  have ev3: "snd (snd (Execute auditFailEnv dbLeaderNodes dbLeaderCoordinator ''tx1'' (PAction insUser)))
     = \<lparr>TransactionID = ''tx1'', Success = False, Message = [], Error = ''Some commits failed''\<rparr>"
    by code_simp
  from commit_after_prepare [OF prepd r3 somed]
  obtain h4 calls4 resp4 where e4:
    "Execute auditFailEnv dbLeaderNodes dbLeaderCoordinator ''tx1'' (PAction insUser)
       = (h4, fst (snd ?pd) @ calls4, resp4)"
    and na: "list_all (\<lambda>c. \<not> isAbort c) (fst (snd ?pd) @ calls4)"
    and rb: "list_ex rollsBack (fst (snd ?pd) @ calls4) \<longleftrightarrow>
                (case localNode dbLeaderCoordinator of
                   None \<Rightarrow> False
                 | Some l \<Rightarrow> pendingTx (fst ?pd l) ''tx1'' \<noteq> None \<and> setCommittedErr (localDB auditFailEnv) \<noteq> None
                     \<and> \<not> isAlreadyFinishedErr (setCommittedErr (localDB auditFailEnv)))"
    and pe: "case localNode dbLeaderCoordinator of None \<Rightarrow> True
             | Some l \<Rightarrow> db (dbLeaderNodes l) \<longrightarrow> pendingTx (fst ?pd l) ''tx1'' \<noteq> None"
    by blast
  from pe loc dbl have "pendingTx (fst ?pd 0) ''tx1'' \<noteq> None"
    by simp
  with rb loc err have "list_ex rollsBack (fst (snd ?pd) @ calls4)"
    by simp
  moreover from e4 ev3 have "resp4 = \<lparr>TransactionID = ''tx1'', Success = False, Message = [],
      Error = ''Some commits failed''\<rparr>"
    by simp
  ultimately have c: "\<exists>h2 calls. Execute auditFailEnv dbLeaderNodes dbLeaderCoordinator ''tx1'' (PAction insUser)
          = (h2, calls,
             \<lparr>TransactionID = ''tx1'', Success = False, Message = [],
              Error = ''Some commits failed''\<rparr>)
          \<and> list_ex rollsBack calls \<and> list_all (\<lambda>c. \<not> isAbort c) calls"
    using e4 na by blast
  from a b c r1 r2 r3 dbl show ?thesis
    by (simp add: leaderCoordinator_def)
qed


end
